theory Spec2Isabelle
  imports Main "HOL-Library.AList"
begin

section \<open>Python values and errors\<close>

text \<open>
  The embedded program is \<^verbatim>\<open>s2protocol/s2_cli.py\<close>, a Python 2 script. A Python 2
  \<^verbatim>\<open>str\<close> is a sequence of bytes, so it is modelled as a \<^typ>\<open>string\<close>: every
  \<^typ>\<open>char\<close> is one byte, \<^verbatim>\<open>ord\<close> is \<^term>\<open>of_char\<close> and \<^verbatim>\<open>chr\<close> is
  \<^term>\<open>char_of\<close> on \<open>0..255\<close>.

  Every exception the modelled code can raise is a value of \<open>py_error\<close>; a function
  that may raise returns \<open>py_error + 'a\<close>, with \<open>Inl\<close> for the raised exception.
  \<^verbatim>\<open>sys.exit(n)\<close> raises \<^verbatim>\<open>SystemExit(n)\<close>, which ends the process with status n.
\<close>

datatype py_error =
    ValueError
  | KeyError
  | TypeError
  | UnsupportedBuildError
  | SystemExit int

section \<open>Binary handle translation\<close>

subsection \<open>\<^verbatim>\<open>binascii.b2a_hex\<close>, \<^verbatim>\<open>int(s, 16)\<close>, \<^verbatim>\<open>chr\<close>, \<^verbatim>\<open>str.lower\<close>\<close>

definition hexdigit :: "nat \<Rightarrow> char" where
  "hexdigit d = ''0123456789abcdef'' ! d"

text \<open>\<^verbatim>\<open>binascii.b2a_hex\<close>: two lower-case hexadecimal digits per byte, high nibble first.\<close>

definition b2a_hex :: "string \<Rightarrow> string" where
  "b2a_hex s = concat (map (\<lambda>c. [hexdigit (of_char c div 16), hexdigit (of_char c mod 16)]) s)"

definition digit_val :: "char \<Rightarrow> nat option" where
  "digit_val c =
     (let n = (of_char c :: nat) in
      if 48 \<le> n \<and> n \<le> 57 then Some (n - 48)
      else if 97 \<le> n \<and> n \<le> 102 then Some (n - 87)
      else if 65 \<le> n \<and> n \<le> 70 then Some (n - 55)
      else None)"

fun hex_value :: "nat \<Rightarrow> string \<Rightarrow> nat option" where
  "hex_value acc [] = Some acc"
| "hex_value acc (c # cs) =
     (case digit_val c of None \<Rightarrow> None | Some d \<Rightarrow> hex_value (16 * acc + d) cs)"

text \<open>
  \<^verbatim>\<open>int(s, 16)\<close> on a string of hexadecimal digits; the empty string raises
  \<^verbatim>\<open>ValueError\<close>. The only caller passes slices of a \<^const>\<open>b2a_hex\<close> result, which
  hold digits only; the signs, blanks and \<^verbatim>\<open>0x\<close> prefix that Python also accepts
  never occur there and are left out of the model.
\<close>

definition int16 :: "string \<Rightarrow> py_error + nat" where
  "int16 s =
     (if s = [] then Inl ValueError
      else case hex_value 0 s of None \<Rightarrow> Inl ValueError | Some n \<Rightarrow> Inr n)"

definition py_chr :: "nat \<Rightarrow> py_error + char" where
  "py_chr n = (if n < 256 then Inr (char_of n) else Inl ValueError)"

text \<open>\<^verbatim>\<open>str.lower\<close> in the C locale: only the bytes \<open>A..Z\<close> change.\<close>

definition lower_char :: "char \<Rightarrow> char" where
  "lower_char c =
     (if 65 \<le> (of_char c :: nat) \<and> (of_char c :: nat) \<le> 90
      then char_of ((of_char c :: nat) + 32) else c)"

definition lower :: "string \<Rightarrow> string" where
  "lower s = map lower_char s"

subsection \<open>\<^verbatim>\<open>convert_fourcc\<close> and \<^verbatim>\<open>cache_handle_uri\<close>\<close>

text \<open>
  The loop \<^verbatim>\<open>for i in xrange(0, 7, 2)\<close> runs for \<open>i = 0, 2, 4, 6\<close>. The slice
  \<^verbatim>\<open>fourcc_hex[i:i+2]\<close> is \<open>take 2 (drop i fourcc_hex)\<close>: a slice never raises, it is
  shorter (or empty) when the string is. The test \<^verbatim>\<open>n is not 0\<close> is \<open>n \<noteq> 0\<close>, since
  CPython shares the small integers. The accumulator \<open>s\<close> is the list of one-character
  strings joined at the end, kept here as their concatenation.
\<close>

fun fourcc_loop :: "string \<Rightarrow> nat list \<Rightarrow> string \<Rightarrow> py_error + string" where
  "fourcc_loop fourcc_hex [] s = Inr s"
| "fourcc_loop fourcc_hex (i # is) s =
     (case int16 (take 2 (drop i fourcc_hex)) of
        Inl e \<Rightarrow> Inl e
      | Inr n \<Rightarrow>
          if n \<noteq> 0 then
            (case py_chr n of
               Inl e \<Rightarrow> Inl e
             | Inr c \<Rightarrow> fourcc_loop fourcc_hex is (s @ [c]))
          else fourcc_loop fourcc_hex is s)"

definition convert_fourcc :: "string \<Rightarrow> py_error + string" where
  "convert_fourcc fourcc_hex = fourcc_loop fourcc_hex [0, 2, 4, 6] []"

definition cache_handle_uri :: "string \<Rightarrow> py_error + string" where
  "cache_handle_uri handle =
     (let handle_hex = b2a_hex handle in
      case convert_fourcc (take 8 handle_hex) of
        Inl e \<Rightarrow> Inl e
      | Inr purpose \<Rightarrow>
          (case convert_fourcc (take 8 (drop 8 handle_hex)) of
             Inl e \<Rightarrow> Inl e
           | Inr region \<Rightarrow>
               (let content_hash = drop 16 handle_hex in
                Inr (''http://'' @ lower region @ ''.depot.battle.net:1119/''
                     @ lower content_hash @ ''.'' @ lower purpose))))"

section \<open>Decoded values\<close>

text \<open>
  An event is whatever the protocol decoder returns: a tree of Python values. The model
  has the types \<^verbatim>\<open>NoneType\<close>, \<^verbatim>\<open>bool\<close>, \<^verbatim>\<open>int\<close>, \<^verbatim>\<open>long\<close>, \<^verbatim>\<open>str\<close>, \<^verbatim>\<open>tuple\<close>,
  \<^verbatim>\<open>list\<close> and \<^verbatim>\<open>dict\<close> (\<^verbatim>\<open>float\<close> and \<^verbatim>\<open>unicode\<close> are left out). An \<^verbatim>\<open>int\<close> and a
  \<^verbatim>\<open>long\<close> are different types with the same values, so both carry an \<^typ>\<open>int\<close>.

  A \<^verbatim>\<open>dict\<close> is the list of its items, with distinct keys; the order of the list stands
  for the order in which Python iterates over the dict. Keys are hashable values. Python
  compares and hashes \<^verbatim>\<open>True\<close>, \<^verbatim>\<open>1\<close> and \<^verbatim>\<open>1L\<close> alike, so a numeric key is its value.
\<close>

datatype pykey =
    KNone
  | KNum int
  | KStr string
  | KTuple "pykey list"

datatype pyval =
    PNone
  | PBool bool
  | PInt int
  | PLong int
  | PStr string
  | PTuple "pyval list"
  | PList "pyval list"
  | PDict "(pykey \<times> pyval) list"

text \<open>\<^verbatim>\<open>type(value).__name__\<close>\<close>

fun type_name :: "pyval \<Rightarrow> string" where
  "type_name PNone = ''NoneType''"
| "type_name (PBool _) = ''bool''"
| "type_name (PInt _) = ''int''"
| "type_name (PLong _) = ''long''"
| "type_name (PStr _) = ''str''"
| "type_name (PTuple _) = ''tuple''"
| "type_name (PList _) = ''list''"
| "type_name (PDict _) = ''dict''"

text \<open>\<^verbatim>\<open>hash(value)\<close> succeeds: the value can be a key. Lists and dicts are unhashable.\<close>

fun key_of :: "pyval \<Rightarrow> pykey option" where
  "key_of PNone = Some KNone"
| "key_of (PBool b) = Some (KNum (if b then 1 else 0))"
| "key_of (PInt i) = Some (KNum i)"
| "key_of (PLong i) = Some (KNum i)"
| "key_of (PStr s) = Some (KStr s)"
| "key_of (PTuple vs) = map_option KTuple (those (map key_of vs))"
| "key_of (PList _) = None"
| "key_of (PDict _) = None"

text \<open>The value a key stands for, as iteration over a dict yields it.\<close>

fun val_of_key :: "pykey \<Rightarrow> pyval" where
  "val_of_key KNone = PNone"
| "val_of_key (KNum i) = PInt i"
| "val_of_key (KStr s) = PStr s"
| "val_of_key (KTuple ks) = PTuple (map val_of_key ks)"

text \<open>The integer a value adds as in \<^verbatim>\<open>n += value\<close>; anything else is a \<^verbatim>\<open>TypeError\<close>.\<close>

fun num_of :: "pyval \<Rightarrow> int option" where
  "num_of (PBool b) = Some (if b then 1 else 0)"
| "num_of (PInt i) = Some i"
| "num_of (PLong i) = Some i"
| "num_of _ = None"

text \<open>\<^verbatim>\<open>value[key]\<close> for a \<^verbatim>\<open>str\<close> key: only a dict can be indexed by a string.\<close>

definition getitem :: "pyval \<Rightarrow> string \<Rightarrow> py_error + pyval" where
  "getitem v key =
     (case v of
        PDict d \<Rightarrow> (case map_of d (KStr key) of None \<Rightarrow> Inl KeyError | Some x \<Rightarrow> Inr x)
      | _ \<Rightarrow> Inl TypeError)"

text \<open>\<^verbatim>\<open>value[key] = x\<close> for a \<^verbatim>\<open>str\<close> key, returning the updated container.\<close>

definition setitem :: "pyval \<Rightarrow> string \<Rightarrow> pyval \<Rightarrow> py_error + pyval" where
  "setitem v key x =
     (case v of
        PDict d \<Rightarrow> Inr (PDict (AList.update (KStr key) x d))
      | _ \<Rightarrow> Inl TypeError)"

text \<open>\<^verbatim>\<open>sub in s\<close> on two strings: \<open>sub\<close> occurs in \<open>s\<close>.\<close>

fun contains :: "string \<Rightarrow> string \<Rightarrow> bool" where
  "contains sub [] = (sub = [])"
| "contains sub (c # cs) = (take (length sub) (c # cs) = sub \<or> contains sub cs)"

text \<open>
  \<^verbatim>\<open>key in value\<close> for a \<^verbatim>\<open>str\<close> key: a key of a dict, an element of a list or a
  tuple, a substring of a string; the other types are not iterable.
\<close>

definition py_in :: "string \<Rightarrow> pyval \<Rightarrow> py_error + bool" where
  "py_in key v =
     (case v of
        PDict d \<Rightarrow> Inr (map_of d (KStr key) \<noteq> None)
      | PList xs \<Rightarrow> Inr (List.member xs (PStr key))
      | PTuple xs \<Rightarrow> Inr (List.member xs (PStr key))
      | PStr s \<Rightarrow> Inr (contains key s)
      | _ \<Rightarrow> Inl TypeError)"

text \<open>The items \<^verbatim>\<open>for x in value\<close> runs over.\<close>

definition py_iter :: "pyval \<Rightarrow> py_error + pyval list" where
  "py_iter v =
     (case v of
        PList xs \<Rightarrow> Inr xs
      | PTuple xs \<Rightarrow> Inr xs
      | PStr s \<Rightarrow> Inr (map (\<lambda>c. PStr [c]) s)
      | PDict d \<Rightarrow> Inr (map (\<lambda>item. val_of_key (fst item)) d)
      | _ \<Rightarrow> Inl TypeError)"

section \<open>\<^verbatim>\<open>process_init_data\<close>\<close>

text \<open>
  The loop body \<^verbatim>\<open>translated_handles.append(cache_handle_uri(handle))\<close>;
  \<^verbatim>\<open>binascii.b2a_hex\<close> raises \<^verbatim>\<open>TypeError\<close> on anything but a string.
\<close>

fun translate_handles :: "pyval list \<Rightarrow> pyval list \<Rightarrow> py_error + pyval list" where
  "translate_handles [] translated_handles = Inr translated_handles"
| "translate_handles (handle # rest) translated_handles =
     (case handle of
        PStr h \<Rightarrow>
          (case cache_handle_uri h of
             Inl e \<Rightarrow> Inl e
           | Inr uri \<Rightarrow> translate_handles rest (translated_handles @ [PStr uri]))
      | _ \<Rightarrow> Inl TypeError)"

text \<open>
  The assignment mutates the innermost dict, which the outer dicts still hold; with
  values instead of references the two outer dicts are rebuilt around it.
\<close>

definition process_init_data :: "pyval \<Rightarrow> py_error + pyval" where
  "process_init_data initdata =
     (case getitem initdata ''m_syncLobbyState'' of
        Inl e \<Rightarrow> Inl e
      | Inr lobby \<Rightarrow>
     (case getitem lobby ''m_gameDescription'' of
        Inl e \<Rightarrow> Inl e
      | Inr description \<Rightarrow>
     (case getitem description ''m_cacheHandles'' of
        Inl e \<Rightarrow> Inl e
      | Inr handles \<Rightarrow>
     (case py_iter handles of
        Inl e \<Rightarrow> Inl e
      | Inr items \<Rightarrow>
     (case translate_handles items [] of
        Inl e \<Rightarrow> Inl e
      | Inr translated_handles \<Rightarrow>
     (case setitem description ''m_cacheHandles'' (PList translated_handles) of
        Inl e \<Rightarrow> Inl e
      | Inr description' \<Rightarrow>
     (case setitem lobby ''m_gameDescription'' description' of
        Inl e \<Rightarrow> Inl e
      | Inr lobby' \<Rightarrow> setitem initdata ''m_syncLobbyState'' lobby')))))))"

section \<open>Filters\<close>

subsection \<open>\<^verbatim>\<open>TypeDumpFilter\<close>\<close>

fun recurse_into :: "pyval \<Rightarrow> pyval" where
  "recurse_into (PList value) = PList (map recurse_into value)"
| "recurse_into (PDict value) = PDict (map (map_prod id recurse_into) value)"
| "recurse_into value = PTuple [PStr (type_name value), value]"

subsection \<open>\<^verbatim>\<open>StatCollectionFilter\<close>\<close>

text \<open>\<^verbatim>\<open>self._event_stats\<close>: a dict from the event name to the list \<^verbatim>\<open>[count, bits]\<close>.\<close>

type_synonym event_stats = "(pykey \<times> int \<times> int) list"

definition stat_process :: "event_stats \<Rightarrow> pyval \<Rightarrow> py_error + (pyval \<times> event_stats)" where
  "stat_process event_stats event =
     (case py_in ''_event'' event of
        Inl e \<Rightarrow> Inl e
      | Inr False \<Rightarrow> Inr (event, event_stats)
      | Inr True \<Rightarrow>
     (case py_in ''_bits'' event of
        Inl e \<Rightarrow> Inl e
      | Inr False \<Rightarrow> Inr (event, event_stats)
      | Inr True \<Rightarrow>
     (case getitem event ''_event'' of
        Inl e \<Rightarrow> Inl e
      | Inr name \<Rightarrow>
     (case key_of name of
        None \<Rightarrow> Inl TypeError
      | Some k \<Rightarrow>
     (let stat = (case map_of event_stats k of None \<Rightarrow> (0, 0) | Some st \<Rightarrow> st) in
      case getitem event ''_bits'' of
        Inl e \<Rightarrow> Inl e
      | Inr bits \<Rightarrow>
     (case num_of bits of
        None \<Rightarrow> Inl TypeError
      | Some b \<Rightarrow>
          Inr (event, AList.update k (fst stat + 1, snd stat + b) event_stats)))))))"

subsection \<open>The filter classes\<close>

text \<open>
  What a filter writes to \<^verbatim>\<open>sys.stdout\<close> is recorded as a list of items, one per
  \<^verbatim>\<open>print\<close>: the rendering of an event stands for the text \<^verbatim>\<open>json.dumps\<close> or
  \<^verbatim>\<open>pprint\<close> makes of it, and a row of the report for the three values the format
  \<^verbatim>\<open>'"%s", %d, %d'\<close> prints.
\<close>

datatype printed =
    JsonText pyval
  | NdjsonText pyval
  | PrettyText pyval
  | StatsHeader
  | StatsRow pykey int int

datatype filter =
    EventFilter
  | JSONOutputFilter
  | NDJSONOutputFilter
  | PrettyPrintFilter
  | TypeDumpFilter
  | StatCollectionFilter event_stats

text \<open>
  \<^verbatim>\<open>json.dumps\<close> raises \<^verbatim>\<open>TypeError\<close> on a dict key that is not a string, a number,
  a boolean or \<^verbatim>\<open>None\<close>; tuples are written as arrays, and with the ISO-8859-1
  encoding every byte string decodes.
\<close>

fun json_key_ok :: "pykey \<Rightarrow> bool" where
  "json_key_ok (KTuple _) = False"
| "json_key_ok _ = True"

fun json_ok :: "pyval \<Rightarrow> bool" where
  "json_ok (PTuple vs) = list_all json_ok vs"
| "json_ok (PList vs) = list_all json_ok vs"
| "json_ok (PDict d) = list_all (\<lambda>item. json_key_ok (fst item) \<and> json_ok (snd item)) d"
| "json_ok _ = True"

text \<open>
  \<^verbatim>\<open>f.process(event)\<close>: the returned event, the filter with its state after the call,
  and the standard output after the call.
\<close>

fun process :: "filter \<Rightarrow> pyval \<Rightarrow> printed list \<Rightarrow> py_error + (pyval \<times> filter \<times> printed list)" where
  "process EventFilter event out = Inr (event, EventFilter, out)"
| "process JSONOutputFilter event out =
     (if json_ok event then Inr (event, JSONOutputFilter, out @ [JsonText event])
      else Inl TypeError)"
| "process NDJSONOutputFilter event out =
     (if json_ok event then Inr (event, NDJSONOutputFilter, out @ [NdjsonText event])
      else Inl TypeError)"
| "process PrettyPrintFilter event out = Inr (event, PrettyPrintFilter, out @ [PrettyText event])"
| "process TypeDumpFilter event out = Inr (recurse_into event, TypeDumpFilter, out)"
| "process (StatCollectionFilter event_stats) event out =
     (case stat_process event_stats event of
        Inl e \<Rightarrow> Inl e
      | Inr (event', event_stats') \<Rightarrow> Inr (event', StatCollectionFilter event_stats', out))"

definition stat_rows :: "event_stats \<Rightarrow> printed list" where
  "stat_rows event_stats =
     map (\<lambda>(name, stat). StatsRow name (fst stat) (snd stat div 8))
       (sort_key (\<lambda>x. snd (snd x)) event_stats)"

fun finish :: "filter \<Rightarrow> printed list \<Rightarrow> printed list" where
  "finish (StatCollectionFilter event_stats) out = out @ [StatsHeader] @ stat_rows event_stats"
| "finish _ out = out"

section \<open>\<^verbatim>\<open>main\<close>\<close>

subsection \<open>Building the filter chain\<close>

text \<open>The options that decide the chain; \<^verbatim>\<open>filters.insert(0, f)\<close> is \<open>f # filters\<close>.\<close>

record args =
  json :: bool
  ndjson :: bool
  quiet :: bool
  types :: bool
  stats :: bool

definition build_filters :: "args \<Rightarrow> filter list" where
  "build_filters a =
     (let filters = [];
          filters = (if json a then JSONOutputFilter # filters
                     else if ndjson a then NDJSONOutputFilter # filters
                     else if \<not> quiet a then PrettyPrintFilter # filters
                     else filters);
          filters = (if types a then TypeDumpFilter # filters else filters);
          filters = (if stats a then StatCollectionFilter [] # filters else filters)
      in filters)"

subsection \<open>Running the chain\<close>

text \<open>
  \<^verbatim>\<open>process_event\<close> returns nothing; the model returns the last value of its local
  variable \<open>event\<close>, with the filters and the output as the loop leaves them.
\<close>

fun process_event :: "filter list \<Rightarrow> pyval \<Rightarrow> printed list \<Rightarrow> py_error + (pyval \<times> filter list \<times> printed list)" where
  "process_event [] event out = Inr (event, [], out)"
| "process_event (f # fs) event out =
     (case process f event out of
        Inl e \<Rightarrow> Inl e
      | Inr (event', f', out') \<Rightarrow>
          (case process_event fs event' out' of
             Inl e \<Rightarrow> Inl e
           | Inr (event'', fs', out'') \<Rightarrow> Inr (event'', f' # fs', out'')))"

text \<open>\<^verbatim>\<open>map(process_event, events)\<close>\<close>

fun process_events :: "filter list \<Rightarrow> pyval list \<Rightarrow> printed list \<Rightarrow> py_error + (filter list \<times> printed list)" where
  "process_events filters [] out = Inr (filters, out)"
| "process_events filters (event # events) out =
     (case process_event filters event out of
        Inl e \<Rightarrow> Inl e
      | Inr (_, filters', out') \<Rightarrow> process_events filters' events out')"

text \<open>\<^verbatim>\<open>for f in filters: f.finish()\<close>\<close>

fun finish_all :: "filter list \<Rightarrow> printed list \<Rightarrow> printed list" where
  "finish_all [] out = out"
| "finish_all (f # fs) out = finish_all fs (finish f out)"

subsection \<open>Choosing the protocol\<close>

text \<open>The format \<^verbatim>\<open>'%d' % n\<close>.\<close>

definition decimal_digit :: "nat \<Rightarrow> char" where
  "decimal_digit d = ''0123456789'' ! d"

function show_nat :: "nat \<Rightarrow> string" where
  "show_nat n =
     (if n < 10 then [decimal_digit n]
      else show_nat (n div 10) @ [decimal_digit (n mod 10)])"
  by pat_completeness auto
termination
  by (relation "measure id") auto

declare show_nat.simps [simp del]

definition show_int :: "int \<Rightarrow> string" where
  "show_int i = (if i < 0 then CHR ''-'' # show_nat (nat (- i)) else show_nat (nat i))"

text \<open>
  Modelled from the spec: \<^verbatim>\<open>versions.build\<close>, of the module \<^verbatim>\<open>versions\<close> that the
  script imports and the sources do not hold. The specification describes it as the
  lookup of a registry of decoders keyed by build number, which fails with
  \<open>UnsupportedBuildError\<close> when no decoder claims the build number. The registry is a
  parameter: the list of the registered build numbers with their decoders.
\<close>

definition versions_build :: "(int \<times> 'd) list \<Rightarrow> int \<Rightarrow> py_error + 'd" where
  "versions_build registry build_number =
     (case map_of registry build_number of
        None \<Rightarrow> Inl UnsupportedBuildError
      | Some decoder \<Rightarrow> Inr decoder)"

text \<open>
  The \<^verbatim>\<open>try\<close> statement of \<^verbatim>\<open>main\<close>: the bare \<^verbatim>\<open>except\<close> catches whatever
  \<^verbatim>\<open>versions.build\<close> raises, prints to \<^verbatim>\<open>sys.stderr\<close> and exits. The result is the
  protocol or the exception that ends the run, with the lines on the error stream.
\<close>

definition select_protocol :: "(int \<times> 'd) list \<Rightarrow> int \<Rightarrow> string list \<Rightarrow> (py_error + 'd) \<times> string list" where
  "select_protocol registry baseBuild err =
     (case versions_build registry baseBuild of
        Inl _ \<Rightarrow> (Inl (SystemExit 1), err @ [''Unsupported base build: '' @ show_int baseBuild])
      | Inr protocol \<Rightarrow> (Inr protocol, err))"

text \<open>
  \<^verbatim>\<open>baseBuild = header['m_version']['m_baseBuild']\<close>, then the \<^verbatim>\<open>try\<close> statement. A
  build number that is not a number is claimed by no decoder of the registry, and the
  handler's \<^verbatim>\<open>'%d' % baseBuild\<close> raises \<^verbatim>\<open>TypeError\<close> on it.
\<close>

definition resolve_protocol :: "(int \<times> 'd) list \<Rightarrow> pyval \<Rightarrow> string list \<Rightarrow> (py_error + 'd) \<times> string list" where
  "resolve_protocol registry header err =
     (case getitem header ''m_version'' of
        Inl e \<Rightarrow> (Inl e, err)
      | Inr version \<Rightarrow>
     (case getitem version ''m_baseBuild'' of
        Inl e \<Rightarrow> (Inl e, err)
      | Inr baseBuild \<Rightarrow>
     (case num_of baseBuild of
        None \<Rightarrow> (Inl TypeError, err)
      | Some n \<Rightarrow> select_protocol registry n err)))"

section \<open>Notions used in the statements\<close>

text \<open>An upper-case letter of ASCII.\<close>

definition is_upper :: "char \<Rightarrow> bool" where
  "is_upper c = (65 \<le> (of_char c :: nat) \<and> (of_char c :: nat) \<le> 90)"

text \<open>The three filters that render an event to the standard output.\<close>

fun is_render :: "filter \<Rightarrow> bool" where
  "is_render JSONOutputFilter = True"
| "is_render NDJSONOutputFilter = True"
| "is_render PrettyPrintFilter = True"
| "is_render _ = False"

text \<open>
  The values \<open>recurse_into\<close> does not descend into: everything whose type is neither
  \<^verbatim>\<open>list\<close> nor \<^verbatim>\<open>dict\<close>.
\<close>

fun is_leaf :: "pyval \<Rightarrow> bool" where
  "is_leaf (PList _) = False"
| "is_leaf (PDict _) = False"
| "is_leaf _ = True"

text \<open>
  A tree of lists and dicts whose leaves are all pairs of a type name and a value of
  that type.
\<close>

fun typed_tree :: "pyval \<Rightarrow> bool" where
  "typed_tree (PList xs) = list_all typed_tree xs"
| "typed_tree (PDict d) = list_all (\<lambda>item. typed_tree (snd item)) d"
| "typed_tree (PTuple [PStr t, v]) = (is_leaf v \<and> t = type_name v)"
| "typed_tree _ = False"

text \<open>The tree with every such pair replaced by its second component.\<close>

fun strip_types :: "pyval \<Rightarrow> pyval" where
  "strip_types (PList xs) = PList (map strip_types xs)"
| "strip_types (PDict d) = PDict (map (map_prod id strip_types) d)"
| "strip_types (PTuple [PStr t, v]) = v"
| "strip_types v = v"

text \<open>The event carries both reserved fields: both \<^verbatim>\<open>in\<close> tests of the collector hold.\<close>

definition carries_both :: "pyval \<Rightarrow> bool" where
  "carries_both event =
     (py_in ''_event'' event = Inr True \<and> py_in ''_bits'' event = Inr True)"

text \<open>The category of an event: the key that the value of its field \<^verbatim>\<open>_event\<close> is.\<close>

definition event_category :: "pyval \<Rightarrow> pykey option" where
  "event_category event =
     (case getitem event ''_event'' of Inl _ \<Rightarrow> None | Inr name \<Rightarrow> key_of name)"

text \<open>
  An event as the decoders make it for the collector: a dict whose reserved fields, when
  it has both, are a hashable name and a number of bits.
\<close>

definition stat_event_ok :: "pyval \<Rightarrow> bool" where
  "stat_event_ok event =
     (case event of
        PDict d \<Rightarrow>
          (case (map_of d (KStr ''_event''), map_of d (KStr ''_bits'')) of
             (Some name, Some bits) \<Rightarrow> key_of name \<noteq> None \<and> num_of bits \<noteq> None
           | _ \<Rightarrow> True)
      | _ \<Rightarrow> False)"

text \<open>The events counted so far: the sum of the counts of all categories.\<close>

definition counted :: "event_stats \<Rightarrow> int" where
  "counted event_stats = sum_list (map (\<lambda>row. fst (snd row)) event_stats)"

text \<open>The name and the count of a row of the report.\<close>

fun row_name :: "printed \<Rightarrow> pykey option" where
  "row_name (StatsRow name _ _) = Some name"
| "row_name _ = None"

fun row_count :: "printed \<Rightarrow> int" where
  "row_count (StatsRow _ n _) = n"
| "row_count _ = 0"

text \<open>
  The init data is a dict \<open>d\<close> that holds the dict \<open>lobby\<close> under \<^verbatim>\<open>m_syncLobbyState\<close>,
  which holds the dict \<open>description\<close> under \<^verbatim>\<open>m_gameDescription\<close>, which holds
  \<open>handles\<close> under \<^verbatim>\<open>m_cacheHandles\<close>.
\<close>

definition has_cache_handles ::
  "pyval \<Rightarrow> (pykey \<times> pyval) list \<Rightarrow> (pykey \<times> pyval) list \<Rightarrow> (pykey \<times> pyval) list
     \<Rightarrow> pyval \<Rightarrow> bool" where
  "has_cache_handles initdata d lobby description handles =
     (initdata = PDict d
      \<and> map_of d (KStr ''m_syncLobbyState'') = Some (PDict lobby)
      \<and> map_of lobby (KStr ''m_gameDescription'') = Some (PDict description)
      \<and> map_of description (KStr ''m_cacheHandles'') = Some handles)"

text \<open>The same three dicts with \<open>x\<close> stored under \<^verbatim>\<open>m_cacheHandles\<close>, all else as it was.\<close>

definition with_cache_handles ::
  "(pykey \<times> pyval) list \<Rightarrow> (pykey \<times> pyval) list \<Rightarrow> (pykey \<times> pyval) list
     \<Rightarrow> pyval \<Rightarrow> pyval" where
  "with_cache_handles d lobby description x =
     PDict (AList.update (KStr ''m_syncLobbyState'')
       (PDict (AList.update (KStr ''m_gameDescription'')
         (PDict (AList.update (KStr ''m_cacheHandles'') x description)) lobby)) d)"

text \<open>The handle is a string and \<open>uri\<close> is the string it is translated to.\<close>

definition translated :: "pyval \<Rightarrow> pyval \<Rightarrow> bool" where
  "translated handle uri =
     (case (handle, uri) of
        (PStr h, PStr u) \<Rightarrow> cache_handle_uri h = Inr u
      | _ \<Rightarrow> False)"

text \<open>The integer that a decimal numeral, with its sign, denotes.\<close>

definition read_nat :: "string \<Rightarrow> nat" where
  "read_nat s = foldl (\<lambda>a c. 10 * a + (of_char c - 48)) 0 s"

definition read_int :: "string \<Rightarrow> int" where
  "read_int s =
     (case s of
        [] \<Rightarrow> 0
      | c # cs \<Rightarrow> if c = CHR ''-'' then - int (read_nat cs) else int (read_nat s))"

section \<open>Hexadecimal encoding and the packed codes\<close>

lemma nibble_cases:
  assumes "d < (16::nat)"
  shows "d \<in> {0, 1, 2, 3, 4, 5, 6, 7, 8, 9, 10, 11, 12, 13, 14, 15}"
  using assms by simp arith

lemma hexdigit_val: "d < 16 \<Longrightarrow> digit_val (hexdigit d) = Some d"
  by (drule nibble_cases) (auto simp: hexdigit_def digit_val_def)

lemma int16_pair:
  "int16 [hexdigit (of_char c div 16), hexdigit (of_char c mod 16)] = Inr (of_char c)"
  by (simp add: int16_def hexdigit_val div_less_iff_less_mult)

lemma b2a_hex_Nil: "b2a_hex [] = []"
  by (simp add: b2a_hex_def)

lemma b2a_hex_Cons:
  "b2a_hex (c # cs) = hexdigit (of_char c div 16) # hexdigit (of_char c mod 16) # b2a_hex cs"
  by (simp add: b2a_hex_def)

lemma length_b2a_hex: "length (b2a_hex s) = 2 * length s"
  by (induction s) (simp_all add: b2a_hex_Cons b2a_hex_Nil)

lemma take_b2a_hex: "take (2 * n) (b2a_hex s) = b2a_hex (take n s)"
proof (induction s arbitrary: n)
  case Nil
  then show ?case by (simp add: b2a_hex_Nil)
next
  case (Cons c cs)
  then show ?case by (cases n) (simp_all add: b2a_hex_Cons b2a_hex_Nil)
qed

lemma drop_b2a_hex: "drop (2 * n) (b2a_hex s) = b2a_hex (drop n s)"
proof (induction s arbitrary: n)
  case Nil
  then show ?case by (simp add: b2a_hex_Nil)
next
  case (Cons c cs)
  then show ?case by (cases n) (simp_all add: b2a_hex_Cons b2a_hex_Nil)
qed

lemma of_char_zero_iff: "(of_char c :: nat) = 0 \<longleftrightarrow> c = CHR 0x00"
proof -
  have "(of_char (CHR 0x00) :: nat) = 0" by simp
  then show ?thesis by (metis of_char_eq_iff)
qed

lemma convert_fourcc_four:
  "convert_fourcc (b2a_hex [a, b, c, d]) = Inr (filter (\<lambda>x. x \<noteq> CHR 0x00) [a, b, c, d])"
  by (simp add: convert_fourcc_def b2a_hex_Cons b2a_hex_Nil int16_pair py_chr_def
      of_char_zero_iff)

lemma length_four: "length bs = 4 \<Longrightarrow> \<exists>a b c d. bs = [a, b, c, d]"
  by (auto simp: numeral_eq_Suc length_Suc_conv)

lemma convert_fourcc_bytes:
  assumes "length bs = 4"
  shows "convert_fourcc (b2a_hex bs) = Inr (filter (\<lambda>x. x \<noteq> CHR 0x00) bs)"
proof -
  from assms obtain a b c d where "bs = [a, b, c, d]"
    using length_four by blast
  then show ?thesis by (simp only: convert_fourcc_four)
qed

text \<open>
  C9. On the hexadecimal encoding of four bytes, \<open>convert_fourcc\<close> returns the bytes
  that are not zero, in their order, each as the character \<^verbatim>\<open>chr\<close> gives for it (the
  byte itself, a Python 2 string being its bytes): the empty string for four zero bytes,
  whose encoding is \<open>00000000\<close>, and the one character \<open>c\<close> when \<open>c\<close> at position \<open>k\<close>
  is the only byte that is not zero, whichever position that is.
\<close>

theorem convert_fourcc_omits_zero_bytes:
  "b2a_hex (replicate 4 (CHR 0x00)) = ''00000000''
   \<and> convert_fourcc ''00000000'' = Inr []
   \<and> (\<forall>k c. k < 4 \<and> c \<noteq> CHR 0x00 \<longrightarrow>
         convert_fourcc (b2a_hex (replicate k (CHR 0x00) @ [c] @ replicate (3 - k) (CHR 0x00)))
           = Inr [c])
   \<and> (\<forall>bs. length bs = 4 \<longrightarrow>
         convert_fourcc (b2a_hex bs) = Inr (filter (\<lambda>x. x \<noteq> CHR 0x00) bs))"
proof (intro conjI allI impI)
  show enc: "b2a_hex (replicate 4 (CHR 0x00)) = ''00000000''"
    by code_simp
  have "convert_fourcc (b2a_hex (replicate 4 (CHR 0x00))) = Inr []"
    by (simp add: convert_fourcc_bytes)
  then show "convert_fourcc ''00000000'' = Inr []"
    by (simp only: enc)
next
  fix k :: nat and c :: char
  assume kc: "k < 4 \<and> c \<noteq> CHR 0x00"
  let ?bs = "replicate k (CHR 0x00) @ [c] @ replicate (3 - k) (CHR 0x00)"
  have len: "length ?bs = 4"
    using kc by simp
  have "filter (\<lambda>x. x \<noteq> CHR 0x00) ?bs = [c]"
    using kc by simp
  then show "convert_fourcc (b2a_hex ?bs) = Inr [c]"
    by (simp only: convert_fourcc_bytes [OF len])
next
  fix bs :: string
  assume "length bs = 4"
  then show "convert_fourcc (b2a_hex bs) = Inr (filter (\<lambda>x. x \<noteq> CHR 0x00) bs)"
    by (rule convert_fourcc_bytes)
qed

theorem convert_fourcc_omits_zero_bytes_witness:
  "convert_fourcc (b2a_hex [CHR 0x00, CHR ''A'', CHR 0x00, CHR 0x00]) = Inr ''A''
   \<and> convert_fourcc (b2a_hex [CHR ''s'', CHR 0x00, CHR ''2'', CHR 0x00]) = Inr ''s2''"
proof -
  have "\<forall>bs. length bs = 4 \<longrightarrow>
          convert_fourcc (b2a_hex bs) = Inr (filter (\<lambda>x. x \<noteq> CHR 0x00) bs)"
    using convert_fourcc_omits_zero_bytes by blast
  then have
    "convert_fourcc (b2a_hex [CHR 0x00, CHR ''A'', CHR 0x00, CHR 0x00])
       = Inr (filter (\<lambda>x. x \<noteq> CHR 0x00) [CHR 0x00, CHR ''A'', CHR 0x00, CHR 0x00])"
    "convert_fourcc (b2a_hex [CHR ''s'', CHR 0x00, CHR ''2'', CHR 0x00])
       = Inr (filter (\<lambda>x. x \<noteq> CHR 0x00) [CHR ''s'', CHR 0x00, CHR ''2'', CHR 0x00])"
    by simp_all
  then show ?thesis by simp
qed

section \<open>Handle translation\<close>

lemma fourcc_loop_short:
  assumes "i \<in> set is" and "length fourcc_hex \<le> i"
  shows "fourcc_loop fourcc_hex is s = Inl ValueError"
  using assms
proof (induction "is" arbitrary: s)
  case Nil
  then show ?case by simp
next
  case (Cons j js)
  show ?case
  proof (cases "j = i")
    case True
    with Cons.prems show ?thesis by (simp add: int16_def)
  next
    case False
    with Cons.prems have "i \<in> set js" by simp
    then have IH: "\<And>s. fourcc_loop fourcc_hex js s = Inl ValueError"
      using Cons.IH Cons.prems(2) by blast
    show ?thesis
      by (simp add: IH int16_def py_chr_def split: option.splits sum.splits)
  qed
qed

lemma convert_fourcc_short:
  "length fourcc_hex \<le> 6 \<Longrightarrow> convert_fourcc fourcc_hex = Inl ValueError"
  unfolding convert_fourcc_def by (rule fourcc_loop_short [where i = 6]) simp_all

lemma fourcc_loop_error: "fourcc_loop fourcc_hex is s = Inl e \<Longrightarrow> e = ValueError"
proof (induction "is" arbitrary: s)
  case Nil
  then show ?case by simp
next
  case (Cons j js)
  then show ?case
    by (auto simp: int16_def py_chr_def split: sum.splits option.splits if_splits)
qed

lemma convert_fourcc_error: "convert_fourcc fourcc_hex = Inl e \<Longrightarrow> e = ValueError"
  unfolding convert_fourcc_def by (rule fourcc_loop_error)

lemma cache_handle_uri_long:
  assumes "8 \<le> length handle"
  shows "cache_handle_uri handle =
     Inr (''http://'' @ lower (filter (\<lambda>x. x \<noteq> CHR 0x00) (take 4 (drop 4 handle)))
          @ ''.depot.battle.net:1119/'' @ lower (b2a_hex (drop 8 handle)) @ ''.''
          @ lower (filter (\<lambda>x. x \<noteq> CHR 0x00) (take 4 handle)))"
proof -
  have p: "take 8 (b2a_hex handle) = b2a_hex (take 4 handle)"
    using take_b2a_hex [of 4 handle] by simp
  have r: "take 8 (drop 8 (b2a_hex handle)) = b2a_hex (take 4 (drop 4 handle))"
    using drop_b2a_hex [of 4 handle] take_b2a_hex [of 4 "drop 4 handle"] by simp
  have h: "drop 16 (b2a_hex handle) = b2a_hex (drop 8 handle)"
    using drop_b2a_hex [of 8 handle] by simp
  have lp: "length (take 4 handle) = 4" and lr: "length (take 4 (drop 4 handle)) = 4"
    using assms by simp_all
  show ?thesis
    unfolding cache_handle_uri_def Let_def p r h
    by (simp only: convert_fourcc_bytes [OF lp] convert_fourcc_bytes [OF lr] sum.case)
qed

lemma cache_handle_uri_short:
  assumes "length handle < 8"
  shows "cache_handle_uri handle = Inl ValueError"
proof -
  have "length (take 8 (drop 8 (b2a_hex handle))) \<le> 6"
    using assms by (simp add: length_b2a_hex)
  then have r: "convert_fourcc (take 8 (drop 8 (b2a_hex handle))) = Inl ValueError"
    by (rule convert_fourcc_short)
  show ?thesis
  proof (cases "convert_fourcc (take 8 (b2a_hex handle))")
    case (Inl e)
    then have "e = ValueError" by (rule convert_fourcc_error)
    with Inl show ?thesis by (simp add: cache_handle_uri_def)
  next
    case (Inr purpose)
    with r show ?thesis by (simp add: cache_handle_uri_def)
  qed
qed

text \<open>
  C4. A handle of fewer than 8 bytes (fewer than 16 hexadecimal characters) makes
  \<open>cache_handle_uri\<close> raise: \<^verbatim>\<open>int('', 16)\<close> is a \<^verbatim>\<open>ValueError\<close>, and no string is
  returned. A handle of 8 bytes or more is translated: the call returns a string.
\<close>

theorem cache_handle_uri_raises_iff_short:
  "(length handle < 8 \<longrightarrow> cache_handle_uri handle = Inl ValueError)
   \<and> (8 \<le> length handle \<longrightarrow> (\<exists>uri. cache_handle_uri handle = Inr uri))"
  using cache_handle_uri_short [of handle] cache_handle_uri_long [of handle] by simp

theorem cache_handle_uri_raises_iff_short_witness:
  "cache_handle_uri ''s2maUS1'' = Inl ValueError
   \<and> cache_handle_uri [] = Inl ValueError
   \<and> (\<exists>uri. cache_handle_uri ''s2maUS12'' = Inr uri)"
  using cache_handle_uri_raises_iff_short [of "''s2maUS1''"]
    cache_handle_uri_raises_iff_short [of "[]"]
    cache_handle_uri_raises_iff_short [of "''s2maUS12''"]
  by simp

lemma lower_char_not_upper: "\<not> is_upper (lower_char c)"
  by (auto simp: lower_char_def is_upper_def)

lemma lower_not_upper: "list_all (\<lambda>c. \<not> is_upper c) (lower s)"
  by (simp add: lower_def list_all_iff lower_char_not_upper)

lemma hexdigit_lower: "d < 16 \<Longrightarrow> lower_char (hexdigit d) = hexdigit d"
  by (drule nibble_cases) (auto simp: hexdigit_def lower_char_def)

lemma lower_b2a_hex: "lower (b2a_hex s) = b2a_hex s"
  by (induction s)
    (simp_all add: b2a_hex_Cons b2a_hex_Nil lower_def hexdigit_lower div_less_iff_less_mult)

text \<open>
  C2, as the code has it. For every handle of at least 8 bytes \<open>cache_handle_uri\<close>
  returns \<open>http://\<close> + region + \<open>.depot.battle.net:1119/\<close> + hash + \<open>.\<close> + purpose, where
  the purpose is the non-zero bytes of the first four bytes, lowercased, the region is
  the non-zero bytes of the next four bytes, lowercased, and the hash is the hexadecimal
  encoding of the bytes from the ninth on; none of the three segments holds an upper-case
  letter. The handle whose encoding is \<open>7332736275732d32\<close> followed by \<open>deadbeef\<close> gives
  \<open>http://us-2.depot.battle.net:1119/deadbeef.s2sb\<close>; the handle whose encoding is
  \<open>733273620000000075732d3200000000\<close> followed by \<open>deadbeef\<close> has an empty region and
  gives \<open>http://.depot.battle.net:1119/75732d3200000000deadbeef.s2sb\<close>.
\<close>

theorem cache_handle_uri_formula:
  "(8 \<le> length handle \<longrightarrow>
      cache_handle_uri handle =
        Inr (''http://'' @ lower (filter (\<lambda>x. x \<noteq> CHR 0x00) (take 4 (drop 4 handle)))
             @ ''.depot.battle.net:1119/'' @ b2a_hex (drop 8 handle) @ ''.''
             @ lower (filter (\<lambda>x. x \<noteq> CHR 0x00) (take 4 handle)))
      \<and> list_all (\<lambda>c. \<not> is_upper c)
            (lower (filter (\<lambda>x. x \<noteq> CHR 0x00) (take 4 (drop 4 handle))))
      \<and> list_all (\<lambda>c. \<not> is_upper c) (b2a_hex (drop 8 handle))
      \<and> list_all (\<lambda>c. \<not> is_upper c) (lower (filter (\<lambda>x. x \<noteq> CHR 0x00) (take 4 handle))))
   \<and> b2a_hex [CHR ''s'', CHR ''2'', CHR ''s'', CHR ''b'', CHR ''u'', CHR ''s'', CHR ''-'', CHR ''2'',
         CHR 0xDE, CHR 0xAD, CHR 0xBE, CHR 0xEF] = ''7332736275732d32deadbeef''
   \<and> cache_handle_uri
         [CHR ''s'', CHR ''2'', CHR ''s'', CHR ''b'', CHR ''u'', CHR ''s'', CHR ''-'', CHR ''2'',
          CHR 0xDE, CHR 0xAD, CHR 0xBE, CHR 0xEF]
       = Inr ''http://us-2.depot.battle.net:1119/deadbeef.s2sb''
   \<and> cache_handle_uri
         [CHR ''s'', CHR ''2'', CHR ''s'', CHR ''b'', CHR 0x00, CHR 0x00, CHR 0x00, CHR 0x00,
          CHR ''u'', CHR ''s'', CHR ''-'', CHR ''2'', CHR 0x00, CHR 0x00, CHR 0x00, CHR 0x00,
          CHR 0xDE, CHR 0xAD, CHR 0xBE, CHR 0xEF]
       = Inr ''http://.depot.battle.net:1119/75732d3200000000deadbeef.s2sb''"
proof (intro conjI impI)
  assume "8 \<le> length handle"
  then show "cache_handle_uri handle =
        Inr (''http://'' @ lower (filter (\<lambda>x. x \<noteq> CHR 0x00) (take 4 (drop 4 handle)))
             @ ''.depot.battle.net:1119/'' @ b2a_hex (drop 8 handle) @ ''.''
             @ lower (filter (\<lambda>x. x \<noteq> CHR 0x00) (take 4 handle)))"
    by (simp only: cache_handle_uri_long lower_b2a_hex)
next
  show "list_all (\<lambda>c. \<not> is_upper c)
          (lower (filter (\<lambda>x. x \<noteq> CHR 0x00) (take 4 (drop 4 handle))))"
    by (rule lower_not_upper)
next
  have "list_all (\<lambda>c. \<not> is_upper c) (lower (b2a_hex (drop 8 handle)))"
    by (rule lower_not_upper)
  then show "list_all (\<lambda>c. \<not> is_upper c) (b2a_hex (drop 8 handle))"
    by (simp only: lower_b2a_hex)
next
  show "list_all (\<lambda>c. \<not> is_upper c) (lower (filter (\<lambda>x. x \<noteq> CHR 0x00) (take 4 handle)))"
    by (rule lower_not_upper)
next
  show "b2a_hex [CHR ''s'', CHR ''2'', CHR ''s'', CHR ''b'', CHR ''u'', CHR ''s'', CHR ''-'', CHR ''2'',
         CHR 0xDE, CHR 0xAD, CHR 0xBE, CHR 0xEF] = ''7332736275732d32deadbeef''"
    by code_simp
next
  show "cache_handle_uri
         [CHR ''s'', CHR ''2'', CHR ''s'', CHR ''b'', CHR ''u'', CHR ''s'', CHR ''-'', CHR ''2'',
          CHR 0xDE, CHR 0xAD, CHR 0xBE, CHR 0xEF]
       = Inr ''http://us-2.depot.battle.net:1119/deadbeef.s2sb''"
    by code_simp
next
  show "cache_handle_uri
         [CHR ''s'', CHR ''2'', CHR ''s'', CHR ''b'', CHR 0x00, CHR 0x00, CHR 0x00, CHR 0x00,
          CHR ''u'', CHR ''s'', CHR ''-'', CHR ''2'', CHR 0x00, CHR 0x00, CHR 0x00, CHR 0x00,
          CHR 0xDE, CHR 0xAD, CHR 0xBE, CHR 0xEF]
       = Inr ''http://.depot.battle.net:1119/75732d3200000000deadbeef.s2sb''"
    by code_simp
qed

theorem cache_handle_uri_formula_witness:
  "cache_handle_uri
     [CHR ''S'', CHR ''2'', CHR ''M'', CHR ''A'', CHR 0x00, CHR 0x00, CHR ''U'', CHR ''S'',
      CHR 0xDE, CHR 0xAD, CHR 0xBE, CHR 0xEF]
   = Inr ''http://us.depot.battle.net:1119/deadbeef.s2ma''"
proof -
  let ?h = "[CHR ''S'', CHR ''2'', CHR ''M'', CHR ''A'', CHR 0x00, CHR 0x00, CHR ''U'', CHR ''S'',
      CHR 0xDE, CHR 0xAD, CHR 0xBE, CHR 0xEF]"
  have "8 \<le> length ?h" by simp
  then have "cache_handle_uri ?h =
        Inr (''http://'' @ lower (filter (\<lambda>x. x \<noteq> CHR 0x00) (take 4 (drop 4 ?h)))
             @ ''.depot.battle.net:1119/'' @ b2a_hex (drop 8 ?h) @ ''.''
             @ lower (filter (\<lambda>x. x \<noteq> CHR 0x00) (take 4 ?h)))"
    using cache_handle_uri_formula [of ?h] by blast
  also have "\<dots> = Inr ''http://us.depot.battle.net:1119/deadbeef.s2ma''"
    by code_simp
  finally show ?thesis .
qed

text \<open>
  C2, as the specification states it, fails at its own sample: the handle whose encoding is
  \<open>733273620000000075732d3200000000\<close> followed by \<open>deadbeef\<close> is not translated to
  \<open>http://us-2.depot.battle.net:1119/deadbeef.s2sb\<close>. Each code is four bytes, so the
  region is read from the four zero bytes after \<open>s2sb\<close>.
\<close>

theorem cache_handle_uri_sample_counterexample:
  "b2a_hex
     [CHR ''s'', CHR ''2'', CHR ''s'', CHR ''b'', CHR 0x00, CHR 0x00, CHR 0x00, CHR 0x00,
      CHR ''u'', CHR ''s'', CHR ''-'', CHR ''2'', CHR 0x00, CHR 0x00, CHR 0x00, CHR 0x00,
      CHR 0xDE, CHR 0xAD, CHR 0xBE, CHR 0xEF]
     = ''733273620000000075732d3200000000deadbeef''
   \<and> cache_handle_uri
     [CHR ''s'', CHR ''2'', CHR ''s'', CHR ''b'', CHR 0x00, CHR 0x00, CHR 0x00, CHR 0x00,
      CHR ''u'', CHR ''s'', CHR ''-'', CHR ''2'', CHR 0x00, CHR 0x00, CHR 0x00, CHR 0x00,
      CHR 0xDE, CHR 0xAD, CHR 0xBE, CHR 0xEF]
     \<noteq> Inr ''http://us-2.depot.battle.net:1119/deadbeef.s2sb''"
  by code_simp

section \<open>The filter chain\<close>

text \<open>
  C10. The render stage of the chain follows a fixed precedence of the flags:
  \<^verbatim>\<open>--json\<close> installs the indented JSON render whatever \<^verbatim>\<open>--ndjson\<close> and \<^verbatim>\<open>--quiet\<close>
  are, otherwise \<^verbatim>\<open>--ndjson\<close> installs the newline-delimited render whatever
  \<^verbatim>\<open>--quiet\<close> is, otherwise the pretty-printer is installed unless \<^verbatim>\<open>--quiet\<close> is
  set, and then the chain has no render stage. There is never more than one.
\<close>

theorem render_stage_precedence:
  "filter is_render (build_filters a) =
     (if json a then [JSONOutputFilter]
      else if ndjson a then [NDJSONOutputFilter]
      else if quiet a then []
      else [PrettyPrintFilter])"
  by (simp add: build_filters_def Let_def)

theorem render_stage_precedence_witness:
  "filter is_render
     (build_filters \<lparr>json = True, ndjson = True, quiet = True, types = True, stats = True\<rparr>)
     = [JSONOutputFilter]
   \<and> filter is_render
     (build_filters \<lparr>json = False, ndjson = True, quiet = True, types = False, stats = True\<rparr>)
     = [NDJSONOutputFilter]
   \<and> filter is_render
     (build_filters \<lparr>json = False, ndjson = False, quiet = True, types = True, stats = True\<rparr>)
     = []
   \<and> filter is_render
     (build_filters \<lparr>json = False, ndjson = False, quiet = False, types = True, stats = False\<rparr>)
     = [PrettyPrintFilter]"
  using
    render_stage_precedence
      [of "\<lparr>json = True, ndjson = True, quiet = True, types = True, stats = True\<rparr>"]
    render_stage_precedence
      [of "\<lparr>json = False, ndjson = True, quiet = True, types = False, stats = True\<rparr>"]
    render_stage_precedence
      [of "\<lparr>json = False, ndjson = False, quiet = True, types = True, stats = True\<rparr>"]
    render_stage_precedence
      [of "\<lparr>json = False, ndjson = False, quiet = False, types = True, stats = False\<rparr>"]
  by simp

lemma process_event_snoc:
  "process_event (fs @ [c]) event out =
     (case process_event fs event out of
        Inl e \<Rightarrow> Inl e
      | Inr (event', fs', out') \<Rightarrow>
          (case process c event' out' of
             Inl e \<Rightarrow> Inl e
           | Inr (event'', c', out'') \<Rightarrow> Inr (event'', fs' @ [c'], out'')))"
proof (induction fs arbitrary: event out)
  case Nil
  show ?case by (simp split: sum.splits prod.splits)
next
  case (Cons f fs)
  show ?case by (simp add: Cons.IH split: sum.splits prod.splits)
qed

lemma process_event_three:
  "process_event [a, b, c] event out =
     (case process a event out of
        Inl e \<Rightarrow> Inl e
      | Inr (event1, a', out1) \<Rightarrow>
     (case process b event1 out1 of
        Inl e \<Rightarrow> Inl e
      | Inr (event2, b', out2) \<Rightarrow>
     (case process c event2 out2 of
        Inl e \<Rightarrow> Inl e
      | Inr (event3, c', out3) \<Rightarrow> Inr (event3, [a', b', c'], out3))))"
  by (simp split: sum.splits prod.splits)

text \<open>
  C5. In a chain \<open>[a, b, c]\<close> the stage \<open>c\<close> is called on the value that \<open>b\<close> returned
  for the value that \<open>a\<close> returned for the event, each stage after the one before it
  (an exception of a stage ends the run). The same holds for the last stage of a chain
  of any length. The order is not the reverse one: with the type dump before the
  pretty-printer the annotated event is printed, with the pretty-printer first the raw
  event is.
\<close>

theorem process_event_order:
  "process_event [a, b, c] event out =
     (case process a event out of
        Inl e \<Rightarrow> Inl e
      | Inr (event1, a', out1) \<Rightarrow>
     (case process b event1 out1 of
        Inl e \<Rightarrow> Inl e
      | Inr (event2, b', out2) \<Rightarrow>
     (case process c event2 out2 of
        Inl e \<Rightarrow> Inl e
      | Inr (event3, c', out3) \<Rightarrow> Inr (event3, [a', b', c'], out3))))
   \<and> process_event (fs @ [c]) event out =
     (case process_event fs event out of
        Inl e \<Rightarrow> Inl e
      | Inr (event', fs', out') \<Rightarrow>
          (case process c event' out' of
             Inl e \<Rightarrow> Inl e
           | Inr (event'', c', out'') \<Rightarrow> Inr (event'', fs' @ [c'], out'')))
   \<and> process_event [TypeDumpFilter, PrettyPrintFilter] event out =
       Inr (recurse_into event, [TypeDumpFilter, PrettyPrintFilter],
            out @ [PrettyText (recurse_into event)])
   \<and> process_event [PrettyPrintFilter, TypeDumpFilter] event out =
       Inr (recurse_into event, [PrettyPrintFilter, TypeDumpFilter],
            out @ [PrettyText event])"
  by (simp only: process_event_three process_event_snoc) simp

theorem process_event_order_witness:
  "process_event [StatCollectionFilter [], TypeDumpFilter, NDJSONOutputFilter]
     (PDict [(KStr ''_event'', PStr ''NNet.Game.SCmdEvent''), (KStr ''_bits'', PInt 24)]) []
   = Inr (PDict [(KStr ''_event'', PTuple [PStr ''str'', PStr ''NNet.Game.SCmdEvent'']),
                 (KStr ''_bits'', PTuple [PStr ''int'', PInt 24])],
          [StatCollectionFilter [(KStr ''NNet.Game.SCmdEvent'', 1, 24)], TypeDumpFilter,
           NDJSONOutputFilter],
          [NdjsonText
             (PDict [(KStr ''_event'', PTuple [PStr ''str'', PStr ''NNet.Game.SCmdEvent'']),
                     (KStr ''_bits'', PTuple [PStr ''int'', PInt 24])])])"
proof -
  let ?event = "PDict [(KStr ''_event'', PStr ''NNet.Game.SCmdEvent''), (KStr ''_bits'', PInt 24)]"
  have "process_event [StatCollectionFilter [], TypeDumpFilter, NDJSONOutputFilter] ?event [] =
     (case process (StatCollectionFilter []) ?event [] of
        Inl e \<Rightarrow> Inl e
      | Inr (event1, a', out1) \<Rightarrow>
     (case process TypeDumpFilter event1 out1 of
        Inl e \<Rightarrow> Inl e
      | Inr (event2, b', out2) \<Rightarrow>
     (case process NDJSONOutputFilter event2 out2 of
        Inl e \<Rightarrow> Inl e
      | Inr (event3, c', out3) \<Rightarrow> Inr (event3, [a', b', c'], out3))))"
    using process_event_order
      [of "StatCollectionFilter []" TypeDumpFilter NDJSONOutputFilter ?event "[]"]
    by (rule conjunct1)
  also have "\<dots> =
     Inr (PDict [(KStr ''_event'', PTuple [PStr ''str'', PStr ''NNet.Game.SCmdEvent'']),
                 (KStr ''_bits'', PTuple [PStr ''int'', PInt 24])],
          [StatCollectionFilter [(KStr ''NNet.Game.SCmdEvent'', 1, 24)], TypeDumpFilter,
           NDJSONOutputFilter],
          [NdjsonText
             (PDict [(KStr ''_event'', PTuple [PStr ''str'', PStr ''NNet.Game.SCmdEvent'']),
                     (KStr ''_bits'', PTuple [PStr ''int'', PInt 24])])])"
    by code_simp
  finally show ?thesis .
qed

lemma stat_process_unchanged:
  "stat_process event_stats event = Inr (event', event_stats') \<Longrightarrow> event' = event"
  by (auto simp: stat_process_def Let_def split: sum.splits bool.splits option.splits)

text \<open>
  C6. When \<^verbatim>\<open>--stats\<close> and \<^verbatim>\<open>--types\<close> are set and a render stage is installed
  (\<^verbatim>\<open>--json\<close>, \<^verbatim>\<open>--ndjson\<close> or no \<^verbatim>\<open>--quiet\<close>), the chain is the statistics
  collector, the type dump and the render stage, in this order: the collector is
  called on the decoded event as it is, and the render stage on the type-annotated
  event.
\<close>

theorem stats_types_render_order:
  assumes "stats a" and "types a" and "json a \<or> ndjson a \<or> \<not> quiet a"
  shows "\<exists>render. is_render render
     \<and> build_filters a = [StatCollectionFilter [], TypeDumpFilter, render]
     \<and> (\<forall>event out.
          process_event (build_filters a) event out =
            (case stat_process [] event of
               Inl e \<Rightarrow> Inl e
             | Inr (_, event_stats) \<Rightarrow>
                 (case process render (recurse_into event) out of
                    Inl e \<Rightarrow> Inl e
                  | Inr (event', render', out') \<Rightarrow>
                      Inr (event', [StatCollectionFilter event_stats, TypeDumpFilter, render'],
                           out'))))"
proof -
  define render where "render =
    (if json a then JSONOutputFilter else if ndjson a then NDJSONOutputFilter
     else PrettyPrintFilter)"
  have r: "is_render render"
    by (simp add: render_def)
  have b: "build_filters a = [StatCollectionFilter [], TypeDumpFilter, render]"
    using assms by (auto simp: build_filters_def Let_def render_def)
  have "process_event [StatCollectionFilter [], TypeDumpFilter, render] event out =
            (case stat_process [] event of
               Inl e \<Rightarrow> Inl e
             | Inr (_, event_stats) \<Rightarrow>
                 (case process render (recurse_into event) out of
                    Inl e \<Rightarrow> Inl e
                  | Inr (event', render', out') \<Rightarrow>
                      Inr (event', [StatCollectionFilter event_stats, TypeDumpFilter, render'],
                           out')))" for event out
  proof (cases "stat_process [] event")
    case (Inl e)
    then show ?thesis by simp
  next
    case (Inr p)
    then obtain event_stats where "stat_process [] event = Inr (event, event_stats)"
      using stat_process_unchanged by (cases p) auto
    then show ?thesis
      by (simp split: sum.splits prod.splits)
  qed
  with r b show ?thesis by auto
qed

theorem stats_types_render_order_witness:
  "build_filters \<lparr>json = False, ndjson = False, quiet = False, types = True, stats = True\<rparr>
     = [StatCollectionFilter [], TypeDumpFilter, PrettyPrintFilter]
   \<and> process_event
       (build_filters \<lparr>json = False, ndjson = False, quiet = False, types = True, stats = True\<rparr>)
       (PDict [(KStr ''_event'', PStr ''NNet.Game.SCmdEvent''), (KStr ''_bits'', PInt 24)]) []
     = Inr (PDict [(KStr ''_event'', PTuple [PStr ''str'', PStr ''NNet.Game.SCmdEvent'']),
                   (KStr ''_bits'', PTuple [PStr ''int'', PInt 24])],
            [StatCollectionFilter [(KStr ''NNet.Game.SCmdEvent'', 1, 24)], TypeDumpFilter,
             PrettyPrintFilter],
            [PrettyText
               (PDict [(KStr ''_event'', PTuple [PStr ''str'', PStr ''NNet.Game.SCmdEvent'']),
                       (KStr ''_bits'', PTuple [PStr ''int'', PInt 24])])])"
proof -
  let ?a = "\<lparr>json = False, ndjson = False, quiet = False, types = True, stats = True\<rparr>"
  let ?event = "PDict [(KStr ''_event'', PStr ''NNet.Game.SCmdEvent''), (KStr ''_bits'', PInt 24)]"
  have "stats ?a" and "types ?a" and "json ?a \<or> ndjson ?a \<or> \<not> quiet ?a"
    by simp_all
  from stats_types_render_order [OF this] obtain render where
    b: "build_filters ?a = [StatCollectionFilter [], TypeDumpFilter, render]" and
    p: "process_event (build_filters ?a) ?event [] =
            (case stat_process [] ?event of
               Inl e \<Rightarrow> Inl e
             | Inr (_, event_stats) \<Rightarrow>
                 (case process render (recurse_into ?event) [] of
                    Inl e \<Rightarrow> Inl e
                  | Inr (event', render', out') \<Rightarrow>
                      Inr (event', [StatCollectionFilter event_stats, TypeDumpFilter, render'],
                           out')))"
    by blast
  have "build_filters ?a = [StatCollectionFilter [], TypeDumpFilter, PrettyPrintFilter]"
    by (simp add: build_filters_def Let_def)
  with b have render: "render = PrettyPrintFilter" by simp
  have s: "stat_process [] ?event = Inr (?event, [(KStr ''NNet.Game.SCmdEvent'', 1, 24)])"
    by code_simp
  show ?thesis
    using b p unfolding render s by simp
qed

section \<open>The type dump\<close>

lemma recurse_into_leaf:
  "is_leaf value \<Longrightarrow> recurse_into value = PTuple [PStr (type_name value), value]"
  by (cases "value") simp_all

lemma typed_tree_recurse_into: "typed_tree (recurse_into value)"
proof (induction "value")
  case (PList xs)
  then show ?case by (simp add: list_all_iff)
next
  case (PDict d)
  then show ?case by (fastforce simp: list_all_iff)
qed simp_all

lemma strip_types_recurse_into: "strip_types (recurse_into value) = value"
proof (induction "value")
  case (PList xs)
  then show ?case by (simp add: map_idI)
next
  case (PDict d)
  have "map (map_prod id strip_types \<circ> map_prod id recurse_into) d = map id d"
  proof (rule map_cong [OF refl])
    fix item assume item: "item \<in> set d"
    obtain k v where kv: "item = (k, v)" by (cases item)
    then have "v \<in> Basic_BNFs.snds item" by simp
    with item have "strip_types (recurse_into v) = v" by (rule PDict.IH)
    with kv show "(map_prod id strip_types \<circ> map_prod id recurse_into) item = id item"
      by simp
  qed
  then show ?case by simp
qed simp_all

text \<open>
  C3, as the code has it. \<open>TypeDumpFilter.process\<close> returns \<open>recurse_into event\<close> to the
  next stage and prints nothing. \<open>recurse_into\<close> descends into every list and every
  dict, keeping the length and order of a list and the keys of a dict, and replaces
  every other value, a tuple included, by the pair of its type name and the value
  itself: the result is a tree of lists and dicts with such pairs as its leaves, and
  taking the second component of every pair gives the event back.
\<close>

theorem recurse_into_annotates:
  "process TypeDumpFilter event out = Inr (recurse_into event, TypeDumpFilter, out)
   \<and> (is_leaf event \<longrightarrow> recurse_into event = PTuple [PStr (type_name event), event])
   \<and> recurse_into (PList xs) = PList (map recurse_into xs)
   \<and> recurse_into (PDict d) = PDict (zip (map fst d) (map (\<lambda>item. recurse_into (snd item)) d))
   \<and> typed_tree (recurse_into event)
   \<and> strip_types (recurse_into event) = event"
proof -
  have "map (map_prod id recurse_into) d
          = zip (map fst d) (map (\<lambda>item. recurse_into (snd item)) d)"
    by (induction d) auto
  then show ?thesis
    by (simp add: recurse_into_leaf typed_tree_recurse_into strip_types_recurse_into)
qed

theorem recurse_into_annotates_witness:
  "recurse_into
     (PDict [(KStr ''m_userId'', PInt 3), (KStr ''m_names'', PList [PStr ''a'', PNone])])
   = PDict [(KStr ''m_userId'', PTuple [PStr ''int'', PInt 3]),
            (KStr ''m_names'',
             PList [PTuple [PStr ''str'', PStr ''a''], PTuple [PStr ''NoneType'', PNone]])]
   \<and> recurse_into (PLong 7) = PTuple [PStr ''long'', PLong 7]"
proof -
  have "is_leaf (PLong 7)" by simp
  then have "recurse_into (PLong 7) = PTuple [PStr (type_name (PLong 7)), PLong 7]"
    using recurse_into_annotates [of "PLong 7"] by blast
  moreover have "recurse_into
     (PDict [(KStr ''m_userId'', PInt 3), (KStr ''m_names'', PList [PStr ''a'', PNone])])
   = PDict [(KStr ''m_userId'', PTuple [PStr ''int'', PInt 3]),
            (KStr ''m_names'',
             PList [PTuple [PStr ''str'', PStr ''a''], PTuple [PStr ''NoneType'', PNone]])]"
    by simp
  ultimately show ?thesis by simp
qed

text \<open>
  C3, as the specification states it, fails on a tuple, which is a sequence: \<open>recurse_into\<close>
  does not descend into it, so the scalars \<open>8\<close> and \<open>255\<close> of the event
  \<^verbatim>\<open>{'m_mask': (8, 255)}\<close> are not rewritten into pairs; the tuple is paired whole.
\<close>

theorem recurse_into_tuple_counterexample:
  "recurse_into (PDict [(KStr ''m_mask'', PTuple [PInt 8, PInt 255])])
     = PDict [(KStr ''m_mask'', PTuple [PStr ''tuple'', PTuple [PInt 8, PInt 255]])]
   \<and> recurse_into (PDict [(KStr ''m_mask'', PTuple [PInt 8, PInt 255])])
     \<noteq> PDict [(KStr ''m_mask'',
               PTuple [PTuple [PStr ''int'', PInt 8], PTuple [PStr ''int'', PInt 255]])]"
  by simp

section \<open>The statistics collector\<close>

lemma stat_process_skip:
  "\<not> carries_both event \<Longrightarrow> stat_process event_stats event = Inr (event', event_stats')
     \<Longrightarrow> event' = event \<and> event_stats' = event_stats"
  by (auto simp: stat_process_def carries_both_def Let_def
      split: sum.splits bool.splits option.splits)

lemma stat_process_count:
  assumes "carries_both event"
    and "stat_process event_stats event = Inr (event', event_stats')"
  shows "\<exists>k b. event' = event \<and> event_category event = Some k
     \<and> event_stats' =
         AList.update k
           (fst (case map_of event_stats k of None \<Rightarrow> (0, 0) | Some st \<Rightarrow> st) + 1,
            snd (case map_of event_stats k of None \<Rightarrow> (0, 0) | Some st \<Rightarrow> st) + b)
           event_stats"
proof -
  from assms(1) have i: "py_in ''_event'' event = Inr True" "py_in ''_bits'' event = Inr True"
    by (simp_all add: carries_both_def)
  show ?thesis
  proof (cases "getitem event ''_event''")
    case (Inl e)
    with assms(2) show ?thesis by (simp add: stat_process_def i)
  next
    case name: (Inr name)
    show ?thesis
    proof (cases "key_of name")
      case None
      with assms(2) show ?thesis by (simp add: stat_process_def i name)
    next
      case k: (Some k)
      show ?thesis
      proof (cases "getitem event ''_bits''")
        case (Inl e)
        with assms(2) show ?thesis by (simp add: stat_process_def i name k)
      next
        case bits: (Inr bits)
        show ?thesis
        proof (cases "num_of bits")
          case None
          with assms(2) show ?thesis by (simp add: stat_process_def i name k bits)
        next
          case (Some b)
          with assms(2) have "event' = event \<and> event_stats' =
             AList.update k
               (fst (case map_of event_stats k of None \<Rightarrow> (0, 0) | Some st \<Rightarrow> st) + 1,
                snd (case map_of event_stats k of None \<Rightarrow> (0, 0) | Some st \<Rightarrow> st) + b)
               event_stats"
            by (simp add: stat_process_def i name k bits Let_def)
          moreover have "event_category event = Some k"
            by (simp add: event_category_def name k)
          ultimately show ?thesis by blast
        qed
      qed
    qed
  qed
qed

lemma counted_update:
  "counted
     (AList.update k
        (fst (case map_of event_stats k of None \<Rightarrow> (0, 0) | Some st \<Rightarrow> st) + 1, b)
        event_stats)
   = counted event_stats + 1"
  for event_stats :: event_stats
  by (induction event_stats) (auto simp: counted_def)

lemma positive_update:
  fixes event_stats :: event_stats
  assumes "\<forall>row \<in> set event_stats. 0 < fst (snd row)"
  shows "\<forall>row \<in> set
     (AList.update k
        (fst (case map_of event_stats k of None \<Rightarrow> (0, 0) | Some st \<Rightarrow> st) + 1, b)
        event_stats). 0 < fst (snd row)"
proof -
  have "0 < fst (case map_of event_stats k of None \<Rightarrow> (0, 0) | Some st \<Rightarrow> st) + 1"
  proof (cases "map_of event_stats k")
    case None
    then show ?thesis by simp
  next
    case (Some st)
    then have "(k, st) \<in> set event_stats" by (rule map_of_SomeD)
    with assms have "0 < fst st" by fastforce
    with Some show ?thesis by simp
  qed
  moreover have "set (AList.update k v event_stats) \<subseteq> insert (k, v) (set event_stats)" for v
    by (induction event_stats) auto
  ultimately show ?thesis using assms by fastforce
qed

lemma stat_process_step:
  assumes "stat_process event_stats event = Inr (event', event_stats')"
  shows "event' = event
     \<and> counted event_stats' = counted event_stats + (if carries_both event then 1 else 0)
     \<and> ((\<forall>row \<in> set event_stats. 0 < fst (snd row))
          \<longrightarrow> (\<forall>row \<in> set event_stats'. 0 < fst (snd row)))
     \<and> fst ` set event_stats' =
         fst ` set event_stats \<union> {k. carries_both event \<and> event_category event = Some k}"
proof (cases "carries_both event")
  case False
  with assms show ?thesis by (auto dest: stat_process_skip)
next
  case True
  from stat_process_count [OF True assms] obtain k b where
    e: "event' = event" and k: "event_category event = Some k" and
    u: "event_stats' =
         AList.update k
           (fst (case map_of event_stats k of None \<Rightarrow> (0, 0) | Some st \<Rightarrow> st) + 1,
            snd (case map_of event_stats k of None \<Rightarrow> (0, 0) | Some st \<Rightarrow> st) + b)
           event_stats"
    by blast
  have "counted event_stats' = counted event_stats + 1"
    unfolding u by (rule counted_update)
  moreover have "(\<forall>row \<in> set event_stats. 0 < fst (snd row))
          \<longrightarrow> (\<forall>row \<in> set event_stats'. 0 < fst (snd row))"
    unfolding u using positive_update by blast
  moreover have "fst ` set event_stats' = insert k (fst ` set event_stats)"
    unfolding u by (simp add: dom_update)
  ultimately show ?thesis using True e k by auto
qed

lemma stat_process_total:
  assumes "stat_event_ok event"
  shows "\<exists>event_stats'. stat_process event_stats event = Inr (event, event_stats')"
proof -
  from assms obtain d where d: "event = PDict d"
    by (auto simp: stat_event_ok_def split: pyval.splits)
  show ?thesis
    using assms unfolding d
    by (auto simp: stat_event_ok_def stat_process_def py_in_def getitem_def Let_def
        split: option.splits)
qed

lemma process_event_stat_first:
  assumes "process_event (StatCollectionFilter event_stats # fs) event out = Inr (event', fs', out')"
  shows "\<exists>event_stats' rest.
     fs' = StatCollectionFilter event_stats' # rest
     \<and> stat_process event_stats event = Inr (event, event_stats')"
proof (cases "stat_process event_stats event")
  case (Inl e)
  with assms show ?thesis by simp
next
  case (Inr p)
  obtain ev st where p: "p = (ev, st)" by (cases p)
  with Inr have "ev = event" by (auto dest: stat_process_step)
  with Inr p assms show ?thesis
    by (auto split: sum.splits)
qed

lemma process_events_stat_first:
  assumes "process_events (StatCollectionFilter event_stats # fs) events out = Inr (fs', out')"
  shows "\<exists>event_stats' rest.
     fs' = StatCollectionFilter event_stats' # rest
     \<and> counted event_stats' = counted event_stats + int (length (filter carries_both events))
     \<and> ((\<forall>row \<in> set event_stats. 0 < fst (snd row))
          \<longrightarrow> (\<forall>row \<in> set event_stats'. 0 < fst (snd row)))
     \<and> fst ` set event_stats' =
         fst ` set event_stats
         \<union> {k. \<exists>event \<in> set events. carries_both event \<and> event_category event = Some k}"
  using assms
proof (induction events arbitrary: event_stats fs out)
  case Nil
  then show ?case by auto
next
  case (Cons event events)
  from Cons.prems obtain ev fs1 out1 where
    one: "process_event (StatCollectionFilter event_stats # fs) event out = Inr (ev, fs1, out1)"
    and more: "process_events fs1 events out1 = Inr (fs', out')"
    by (auto split: sum.splits)
  from process_event_stat_first [OF one] obtain st1 rest1 where
    fs1: "fs1 = StatCollectionFilter st1 # rest1" and
    st: "stat_process event_stats event = Inr (event, st1)"
    by blast
  note step = stat_process_step [OF st]
  from Cons.IH [OF more [unfolded fs1]] obtain st2 rest2 where
    fs': "fs' = StatCollectionFilter st2 # rest2" and
    c: "counted st2 = counted st1 + int (length (filter carries_both events))" and
    p: "(\<forall>row \<in> set st1. 0 < fst (snd row)) \<longrightarrow> (\<forall>row \<in> set st2. 0 < fst (snd row))" and
    n: "fst ` set st2 = fst ` set st1
         \<union> {k. \<exists>event \<in> set events. carries_both event \<and> event_category event = Some k}"
    by blast
  have "counted st2 = counted event_stats + int (length (filter carries_both (event # events)))"
    using c step by simp
  moreover have "(\<forall>row \<in> set event_stats. 0 < fst (snd row))
      \<longrightarrow> (\<forall>row \<in> set st2. 0 < fst (snd row))"
    using p step by blast
  moreover have "fst ` set st2 = fst ` set event_stats
         \<union> {k. \<exists>e \<in> set (event # events). carries_both e \<and> event_category e = Some k}"
    unfolding n using step by auto
  ultimately show ?case using fs' by blast
qed

lemma sum_list_insort_key:
  "sum_list (map g (insort_key f x xs)) = g x + sum_list (map g xs)"
  for g :: "'a \<Rightarrow> int" and f :: "'a \<Rightarrow> int"
  by (induction xs) simp_all

lemma sum_list_sort_key:
  "sum_list (map g (sort_key f xs)) = sum_list (map g xs)"
  for g :: "'a \<Rightarrow> int" and f :: "'a \<Rightarrow> int"
  by (induction xs) (simp_all add: sum_list_insort_key)

lemma stat_rows_counts:
  "sum_list (map row_count (stat_rows event_stats)) = counted event_stats"
proof -
  have "row_count \<circ> (\<lambda>(name, stat). StatsRow name (fst stat) (snd stat div 8))
          = (\<lambda>row. fst (snd row))"
    by (auto simp: fun_eq_iff)
  then show ?thesis
    by (simp add: stat_rows_def counted_def sum_list_sort_key)
qed

lemma stat_rows_names:
  "row_name ` set (stat_rows event_stats) = Some ` fst ` set event_stats"
  by (force simp: stat_rows_def image_iff)

lemma stat_rows_positive:
  fixes event_stats :: event_stats
  assumes "\<forall>row \<in> set event_stats. 0 < fst (snd row)"
  shows "\<forall>row \<in> set (stat_rows event_stats). 0 < row_count row"
  using assms by (auto simp: stat_rows_def)
text \<open>
  C7. The collector returns the event it was given and prints nothing while events are
  processed; it adds one to the counts exactly when the event carries both \<^verbatim>\<open>_event\<close>
  and \<^verbatim>\<open>_bits\<close>, and on an event of the decoders it does not raise. After a run that
  started with the fresh collector at the head of the chain, \<open>finish\<close> prints the header
  and the rows of the report: their counts add up to the number of events that carried
  both fields, every row has a positive count, and the names of the rows are exactly
  the categories of the events that carried both fields.
\<close>

theorem stat_collection_counts:
  "(process (StatCollectionFilter event_stats) event out = Inr (event', f', out')
      \<longrightarrow> event' = event \<and> out' = out
        \<and> (\<exists>event_stats'. f' = StatCollectionFilter event_stats'
             \<and> counted event_stats' =
                 counted event_stats + (if carries_both event then 1 else 0)))
   \<and> (stat_event_ok event
      \<longrightarrow> (\<exists>event_stats'. process (StatCollectionFilter event_stats) event out =
             Inr (event, StatCollectionFilter event_stats', out)))
   \<and> (process_events (StatCollectionFilter [] # fs) events out = Inr (fs', out'')
      \<longrightarrow> (\<exists>stats rest. fs' = StatCollectionFilter stats # rest
           \<and> finish (StatCollectionFilter stats) out'' = out'' @ StatsHeader # stat_rows stats
           \<and> sum_list (map row_count (stat_rows stats)) =
               int (length (filter carries_both events))
           \<and> (\<forall>row \<in> set (stat_rows stats). 0 < row_count row)
           \<and> row_name ` set (stat_rows stats) =
               {Some k | k. \<exists>event \<in> set events.
                  carries_both event \<and> event_category event = Some k}))"
proof -
  have one: "process (StatCollectionFilter event_stats) event out = Inr (event', f', out')
      \<longrightarrow> event' = event \<and> out' = out
        \<and> (\<exists>event_stats'. f' = StatCollectionFilter event_stats'
             \<and> counted event_stats' =
                 counted event_stats + (if carries_both event then 1 else 0))"
  proof
    assume "process (StatCollectionFilter event_stats) event out = Inr (event', f', out')"
    then obtain st where st: "stat_process event_stats event = Inr (event', st)"
      and f': "f' = StatCollectionFilter st" and out': "out' = out"
      by (auto split: sum.splits)
    from stat_process_step [OF st] f' out'
    show "event' = event \<and> out' = out
        \<and> (\<exists>event_stats'. f' = StatCollectionFilter event_stats'
             \<and> counted event_stats' =
                 counted event_stats + (if carries_both event then 1 else 0))"
      by blast
  qed
  have total: "stat_event_ok event
      \<longrightarrow> (\<exists>event_stats'. process (StatCollectionFilter event_stats) event out =
             Inr (event, StatCollectionFilter event_stats', out))"
  proof
    assume "stat_event_ok event"
    then obtain st where "stat_process event_stats event = Inr (event, st)"
      using stat_process_total by blast
    then show "\<exists>event_stats'. process (StatCollectionFilter event_stats) event out =
             Inr (event, StatCollectionFilter event_stats', out)"
      by simp
  qed
  have run: "process_events (StatCollectionFilter [] # fs) events out = Inr (fs', out'')
      \<longrightarrow> (\<exists>stats rest. fs' = StatCollectionFilter stats # rest
           \<and> finish (StatCollectionFilter stats) out'' = out'' @ StatsHeader # stat_rows stats
           \<and> sum_list (map row_count (stat_rows stats)) =
               int (length (filter carries_both events))
           \<and> (\<forall>row \<in> set (stat_rows stats). 0 < row_count row)
           \<and> row_name ` set (stat_rows stats) =
               {Some k | k. \<exists>event \<in> set events.
                  carries_both event \<and> event_category event = Some k})"
  proof
    assume "process_events (StatCollectionFilter [] # fs) events out = Inr (fs', out'')"
    from process_events_stat_first [OF this] obtain stats rest where
      fs': "fs' = StatCollectionFilter stats # rest" and
      c: "counted stats = counted [] + int (length (filter carries_both events))" and
      p: "\<forall>row \<in> set stats. 0 < fst (snd row)" and
      n: "fst ` set stats =
           {k. \<exists>event \<in> set events. carries_both event \<and> event_category event = Some k}"
      by auto
    have "sum_list (map row_count (stat_rows stats)) = int (length (filter carries_both events))"
      using c by (simp add: stat_rows_counts counted_def)
    moreover have "\<forall>row \<in> set (stat_rows stats). 0 < row_count row"
      using p by (rule stat_rows_positive)
    moreover have "row_name ` set (stat_rows stats) =
               {Some k | k. \<exists>event \<in> set events.
                  carries_both event \<and> event_category event = Some k}"
      unfolding stat_rows_names n by auto
    moreover have
      "finish (StatCollectionFilter stats) out'' = out'' @ StatsHeader # stat_rows stats"
      by simp
    ultimately show "\<exists>stats rest. fs' = StatCollectionFilter stats # rest
           \<and> finish (StatCollectionFilter stats) out'' = out'' @ StatsHeader # stat_rows stats
           \<and> sum_list (map row_count (stat_rows stats)) =
               int (length (filter carries_both events))
           \<and> (\<forall>row \<in> set (stat_rows stats). 0 < row_count row)
           \<and> row_name ` set (stat_rows stats) =
               {Some k | k. \<exists>event \<in> set events.
                  carries_both event \<and> event_category event = Some k}"
      using fs' by blast
  qed
  from one total run show ?thesis by (intro conjI)
qed

theorem stat_collection_counts_witness:
  "process_events [StatCollectionFilter []]
     [PDict [(KStr ''_event'', PStr ''NNet.Game.SCmdEvent''), (KStr ''_bits'', PInt 24)],
      PDict [(KStr ''_event'', PStr ''NNet.Replay.SHeader'')],
      PDict [(KStr ''_event'', PStr ''NNet.Game.SCmdEvent''), (KStr ''_bits'', PInt 16)],
      PDict [(KStr ''m_userId'', PInt 1)]] []
     = Inr ([StatCollectionFilter [(KStr ''NNet.Game.SCmdEvent'', 2, 40)]], [])
   \<and> stat_rows [(KStr ''NNet.Game.SCmdEvent'', 2, 40)]
     = [StatsRow (KStr ''NNet.Game.SCmdEvent'') 2 5]
   \<and> sum_list (map row_count (stat_rows [(KStr ''NNet.Game.SCmdEvent'', 2, 40)]))
     = int (length (filter carries_both
         [PDict [(KStr ''_event'', PStr ''NNet.Game.SCmdEvent''), (KStr ''_bits'', PInt 24)],
          PDict [(KStr ''_event'', PStr ''NNet.Replay.SHeader'')],
          PDict [(KStr ''_event'', PStr ''NNet.Game.SCmdEvent''), (KStr ''_bits'', PInt 16)],
          PDict [(KStr ''m_userId'', PInt 1)]]))"
proof -
  let ?events =
    "[PDict [(KStr ''_event'', PStr ''NNet.Game.SCmdEvent''), (KStr ''_bits'', PInt 24)],
      PDict [(KStr ''_event'', PStr ''NNet.Replay.SHeader'')],
      PDict [(KStr ''_event'', PStr ''NNet.Game.SCmdEvent''), (KStr ''_bits'', PInt 16)],
      PDict [(KStr ''m_userId'', PInt 1)]]"
  let ?stats = "[(KStr ''NNet.Game.SCmdEvent'', 2, 40)] :: event_stats"
  have run: "process_events (StatCollectionFilter [] # []) ?events []
     = Inr ([StatCollectionFilter ?stats], [])"
    by code_simp
  have "\<exists>stats rest. [StatCollectionFilter ?stats] = StatCollectionFilter stats # rest
      \<and> sum_list (map row_count (stat_rows stats)) = int (length (filter carries_both ?events))"
    using run
      stat_collection_counts
        [where fs = "[]" and events = ?events and out = "[]"
           and fs' = "[StatCollectionFilter ?stats]" and out'' = "[]"]
    by blast
  then have "sum_list (map row_count (stat_rows ?stats))
     = int (length (filter carries_both ?events))"
    by simp
  moreover have "stat_rows ?stats = [StatsRow (KStr ''NNet.Game.SCmdEvent'') 2 5]"
    by code_simp
  ultimately show ?thesis using run by simp
qed

section \<open>Translation of the init data\<close>

lemma translated_cases:
  "translated handle uri \<Longrightarrow> \<exists>h u. handle = PStr h \<and> uri = PStr u \<and> cache_handle_uri h = Inr u"
  by (auto simp: translated_def split: pyval.splits)

lemma translate_handles_all:
  assumes "list_all2 translated handles uris"
  shows "translate_handles handles translated_handles = Inr (translated_handles @ uris)"
  using assms
proof (induction handles uris arbitrary: translated_handles rule: list_all2_induct)
  case Nil
  show ?case by simp
next
  case (Cons handle handles uri uris)
  from translated_cases [OF Cons.hyps(1)] obtain h u where
    "handle = PStr h" "uri = PStr u" "cache_handle_uri h = Inr u"
    by blast
  then show ?case by (simp add: Cons.IH)
qed

lemma translated_exists:
  assumes "\<forall>handle \<in> set handles. \<exists>h. handle = PStr h \<and> 8 \<le> length h"
  shows "\<exists>uris. list_all2 translated handles uris"
  using assms
proof (induction handles)
  case Nil
  show ?case by simp
next
  case (Cons handle handles)
  then obtain uris where uris: "list_all2 translated handles uris" by auto
  from Cons.prems obtain h where h: "handle = PStr h" "8 \<le> length h" by auto
  from cache_handle_uri_long [OF h(2)] obtain u where "cache_handle_uri h = Inr u" by blast
  with h have "translated handle (PStr u)" by (simp add: translated_def)
  with uris have "list_all2 translated (handle # handles) (PStr u # uris)" by simp
  then show ?case by blast
qed

lemma process_init_data_present:
  assumes "has_cache_handles initdata d lobby description (PList handles)"
    and "list_all2 translated handles uris"
  shows "process_init_data initdata = Inr (with_cache_handles d lobby description (PList uris))"
proof -
  from assms(1) have
    "getitem initdata ''m_syncLobbyState'' = Inr (PDict lobby)"
    "getitem (PDict lobby) ''m_gameDescription'' = Inr (PDict description)"
    "getitem (PDict description) ''m_cacheHandles'' = Inr (PList handles)"
    and i: "initdata = PDict d"
    by (simp_all add: has_cache_handles_def getitem_def)
  moreover have "translate_handles handles [] = Inr uris"
    using translate_handles_all [OF assms(2), of "[]"] by simp
  ultimately show ?thesis
    by (simp add: process_init_data_def py_iter_def setitem_def with_cache_handles_def i)
qed

text \<open>
  C8. When the init data holds a list of handles at
  \<^verbatim>\<open>m_syncLobbyState/m_gameDescription/m_cacheHandles\<close>, and every handle is
  translated, \<open>process_init_data\<close> returns the init data with the list of the
  translations stored at that place, one for each handle, in the order of the handles,
  and with nothing else changed; handles that are strings of at least 8 bytes are all
  translated. When one of the three keys is missing from its dict, the call raises
  \<^verbatim>\<open>KeyError\<close>; whatever makes one of the three lookups fail, the call fails with
  the exception of the lookup.
\<close>

theorem process_init_data_translates:
  "(has_cache_handles initdata d lobby description (PList handles)
      \<and> list_all2 translated handles uris
      \<longrightarrow> process_init_data initdata
            = Inr (with_cache_handles d lobby description (PList uris)))
   \<and> (has_cache_handles initdata d lobby description (PList handles)
      \<and> (\<forall>handle \<in> set handles. \<exists>h. handle = PStr h \<and> 8 \<le> length h)
      \<longrightarrow> (\<exists>uris'. list_all2 translated handles uris'
            \<and> process_init_data initdata
                = Inr (with_cache_handles d lobby description (PList uris'))))
   \<and> (initdata = PDict d \<and> map_of d (KStr ''m_syncLobbyState'') = None
      \<longrightarrow> process_init_data initdata = Inl KeyError)
   \<and> (initdata = PDict d \<and> map_of d (KStr ''m_syncLobbyState'') = Some (PDict lobby)
      \<and> map_of lobby (KStr ''m_gameDescription'') = None
      \<longrightarrow> process_init_data initdata = Inl KeyError)
   \<and> (initdata = PDict d \<and> map_of d (KStr ''m_syncLobbyState'') = Some (PDict lobby)
      \<and> map_of lobby (KStr ''m_gameDescription'') = Some (PDict description)
      \<and> map_of description (KStr ''m_cacheHandles'') = None
      \<longrightarrow> process_init_data initdata = Inl KeyError)
   \<and> (getitem initdata ''m_syncLobbyState'' = Inl e
      \<or> getitem initdata ''m_syncLobbyState'' = Inr v1
          \<and> getitem v1 ''m_gameDescription'' = Inl e
      \<or> getitem initdata ''m_syncLobbyState'' = Inr v1
          \<and> getitem v1 ''m_gameDescription'' = Inr v2
          \<and> getitem v2 ''m_cacheHandles'' = Inl e
      \<longrightarrow> process_init_data initdata = Inl e)"
proof -
  have present: "has_cache_handles initdata d lobby description (PList handles)
      \<and> list_all2 translated handles uris
      \<longrightarrow> process_init_data initdata
            = Inr (with_cache_handles d lobby description (PList uris))"
    using process_init_data_present by blast
  have total: "has_cache_handles initdata d lobby description (PList handles)
      \<and> (\<forall>handle \<in> set handles. \<exists>h. handle = PStr h \<and> 8 \<le> length h)
      \<longrightarrow> (\<exists>uris'. list_all2 translated handles uris'
            \<and> process_init_data initdata
                = Inr (with_cache_handles d lobby description (PList uris')))"
    using process_init_data_present translated_exists by blast
  have k1: "initdata = PDict d \<and> map_of d (KStr ''m_syncLobbyState'') = None
      \<longrightarrow> process_init_data initdata = Inl KeyError"
    by (simp add: process_init_data_def getitem_def)
  have k2: "initdata = PDict d \<and> map_of d (KStr ''m_syncLobbyState'') = Some (PDict lobby)
      \<and> map_of lobby (KStr ''m_gameDescription'') = None
      \<longrightarrow> process_init_data initdata = Inl KeyError"
    by (simp add: process_init_data_def getitem_def)
  have k3: "initdata = PDict d \<and> map_of d (KStr ''m_syncLobbyState'') = Some (PDict lobby)
      \<and> map_of lobby (KStr ''m_gameDescription'') = Some (PDict description)
      \<and> map_of description (KStr ''m_cacheHandles'') = None
      \<longrightarrow> process_init_data initdata = Inl KeyError"
    by (simp add: process_init_data_def getitem_def)
  have fails: "getitem initdata ''m_syncLobbyState'' = Inl e
      \<or> getitem initdata ''m_syncLobbyState'' = Inr v1
          \<and> getitem v1 ''m_gameDescription'' = Inl e
      \<or> getitem initdata ''m_syncLobbyState'' = Inr v1
          \<and> getitem v1 ''m_gameDescription'' = Inr v2
          \<and> getitem v2 ''m_cacheHandles'' = Inl e
      \<longrightarrow> process_init_data initdata = Inl e"
    by (auto simp: process_init_data_def)
  from present total k1 k2 k3 fails show ?thesis by (intro conjI)
qed

theorem process_init_data_translates_witness:
  "process_init_data
     (PDict [(KStr ''m_userInitialData'', PList []),
             (KStr ''m_syncLobbyState'',
              PDict [(KStr ''m_gameDescription'',
                      PDict [(KStr ''m_cacheHandles'',
                              PList [PStr ''s2maUS12abcd'', PStr ''s2mvEU12wxyz'']),
                             (KStr ''m_gameSpeed'', PInt 4)])])])
   = Inr
     (PDict [(KStr ''m_userInitialData'', PList []),
             (KStr ''m_syncLobbyState'',
              PDict [(KStr ''m_gameDescription'',
                      PDict [(KStr ''m_cacheHandles'',
                              PList [PStr ''http://us12.depot.battle.net:1119/61626364.s2ma'',
                                     PStr ''http://eu12.depot.battle.net:1119/7778797a.s2mv'']),
                             (KStr ''m_gameSpeed'', PInt 4)])])])
   \<and> process_init_data
       (PDict [(KStr ''m_syncLobbyState'', PDict [(KStr ''m_lobbyState'', PNone)])])
     = Inl KeyError"
proof -
  let ?description = "[(KStr ''m_cacheHandles'',
                              PList [PStr ''s2maUS12abcd'', PStr ''s2mvEU12wxyz'']),
                             (KStr ''m_gameSpeed'', PInt 4)]"
  let ?lobby = "[(KStr ''m_gameDescription'', PDict ?description)]"
  let ?d = "[(KStr ''m_userInitialData'', PList []), (KStr ''m_syncLobbyState'', PDict ?lobby)]"
  let ?handles = "[PStr ''s2maUS12abcd'', PStr ''s2mvEU12wxyz'']"
  let ?uris = "[PStr ''http://us12.depot.battle.net:1119/61626364.s2ma'',
                PStr ''http://eu12.depot.battle.net:1119/7778797a.s2mv'']"
  have p: "has_cache_handles (PDict ?d) ?d ?lobby ?description (PList ?handles)"
    by (simp add: has_cache_handles_def)
  have "cache_handle_uri ''s2maUS12abcd'' = Inr ''http://us12.depot.battle.net:1119/61626364.s2ma''"
    "cache_handle_uri ''s2mvEU12wxyz'' = Inr ''http://eu12.depot.battle.net:1119/7778797a.s2mv''"
    by code_simp+
  then have t: "list_all2 translated ?handles ?uris"
    by (simp add: translated_def)
  have "process_init_data (PDict ?d)
          = Inr (with_cache_handles ?d ?lobby ?description (PList ?uris))"
    using p t
      process_init_data_translates
        [where initdata = "PDict ?d" and d = ?d and lobby = ?lobby
           and description = ?description and handles = ?handles and uris = ?uris]
    by blast
  moreover have "process_init_data
       (PDict [(KStr ''m_syncLobbyState'', PDict [(KStr ''m_lobbyState'', PNone)])])
     = Inl KeyError"
    using process_init_data_translates
        [where initdata = "PDict [(KStr ''m_syncLobbyState'', PDict [(KStr ''m_lobbyState'', PNone)])]"
           and d = "[(KStr ''m_syncLobbyState'', PDict [(KStr ''m_lobbyState'', PNone)])]"
           and lobby = "[(KStr ''m_lobbyState'', PNone)]"]
    by simp
  ultimately show ?thesis
    by (simp add: with_cache_handles_def)
qed
section \<open>The choice of the protocol\<close>

lemma versions_build_registered:
  "build \<in> fst ` set registry \<Longrightarrow>
     \<exists>decoder. (build, decoder) \<in> set registry \<and> versions_build registry build = Inr decoder"
proof -
  assume "build \<in> fst ` set registry"
  then obtain decoder where "map_of registry build = Some decoder"
    by (metis domD dom_map_of_conv_image_fst)
  then show ?thesis
    by (auto simp: versions_build_def dest: map_of_SomeD)
qed

lemma versions_build_unregistered:
  "build \<notin> fst ` set registry \<Longrightarrow> versions_build registry build = Inl UnsupportedBuildError"
proof -
  assume "build \<notin> fst ` set registry"
  then have "map_of registry build = None"
    by (simp add: map_of_eq_None_iff)
  then show ?thesis
    by (simp add: versions_build_def)
qed

lemma digit_cases:
  assumes "d < (10::nat)"
  shows "d \<in> {0, 1, 2, 3, 4, 5, 6, 7, 8, 9}"
  using assms by simp arith

lemma of_char_decimal_digit: "d < 10 \<Longrightarrow> (of_char (decimal_digit d) :: nat) = 48 + d"
  by (drule digit_cases) (auto simp: decimal_digit_def)

lemma read_nat_snoc: "read_nat (s @ [c]) = 10 * read_nat s + (of_char c - 48)"
  by (simp add: read_nat_def)

lemma read_nat_show_nat: "read_nat (show_nat n) = n"
proof (induction n rule: show_nat.induct)
  case (1 n)
  show ?case
  proof (cases "n < 10")
    case True
    then show ?thesis
      by (simp add: show_nat.simps [of n] read_nat_def of_char_decimal_digit)
  next
    case False
    with "1" have "read_nat (show_nat (n div 10)) = n div 10" by simp
    with False show ?thesis
      by (simp add: show_nat.simps [of n] read_nat_snoc of_char_decimal_digit)
  qed
qed

lemma show_nat_first: "\<exists>c cs. show_nat n = c # cs \<and> c \<noteq> CHR ''-''"
proof (induction n rule: show_nat.induct)
  case (1 n)
  show ?case
  proof (cases "n < 10")
    case True
    then have "(of_char (decimal_digit n) :: nat) = 48 + n"
      by (rule of_char_decimal_digit)
    then have "decimal_digit n \<noteq> CHR ''-''" by auto
    with True show ?thesis by (simp add: show_nat.simps [of n])
  next
    case False
    with "1" obtain c cs where "show_nat (n div 10) = c # cs" "c \<noteq> CHR ''-''" by blast
    with False show ?thesis by (simp add: show_nat.simps [of n])
  qed
qed

lemma read_int_show_int: "read_int (show_int i) = i"
proof (cases "i < 0")
  case True
  then show ?thesis by (simp add: show_int_def read_int_def read_nat_show_nat)
next
  case False
  obtain c cs where s: "show_nat (nat i) = c # cs" "c \<noteq> CHR ''-''"
    using show_nat_first by blast
  have "read_nat (c # cs) = nat i"
    using read_nat_show_nat [of "nat i"] s by simp
  with False s show ?thesis by (simp add: show_int_def read_int_def)
qed

text \<open>
  C1. The resolution of the protocol raises \<open>UnsupportedBuildError\<close>, and nothing else,
  exactly when no decoder is registered for the build number. For a registered build
  number it returns a decoder registered for it, and \<open>main\<close> goes on with that decoder
  and prints nothing. For any other build number \<open>main\<close> prints
  \<^verbatim>\<open>Unsupported base build: \<close> followed by the number in decimal on the error stream
  and ends with \<^verbatim>\<open>sys.exit(1)\<close>; the numeral printed reads back as the build
  number. The build number is the field \<^verbatim>\<open>m_version/m_baseBuild\<close> of the decoded
  header.
\<close>

theorem unsupported_build_exits:
  "(versions_build registry build = Inl UnsupportedBuildError
      \<longleftrightarrow> build \<notin> fst ` set registry)
   \<and> (versions_build registry build = Inl e \<longrightarrow> e = UnsupportedBuildError)
   \<and> (build \<in> fst ` set registry
      \<longrightarrow> (\<exists>decoder. (build, decoder) \<in> set registry
            \<and> versions_build registry build = Inr decoder
            \<and> select_protocol registry build err = (Inr decoder, err)))
   \<and> (build \<notin> fst ` set registry
      \<longrightarrow> select_protocol registry build err =
            (Inl (SystemExit 1), err @ [''Unsupported base build: '' @ show_int build]))
   \<and> read_int (show_int build) = build
   \<and> resolve_protocol registry
        (PDict [(KStr ''m_version'', PDict [(KStr ''m_baseBuild'', PInt build)])]) err
      = select_protocol registry build err"
proof -
  have iff: "versions_build registry build = Inl UnsupportedBuildError
      \<longleftrightarrow> build \<notin> fst ` set registry"
  proof
    assume "versions_build registry build = Inl UnsupportedBuildError"
    then show "build \<notin> fst ` set registry"
      using versions_build_registered [of build registry] by auto
  next
    assume "build \<notin> fst ` set registry"
    then show "versions_build registry build = Inl UnsupportedBuildError"
      by (rule versions_build_unregistered)
  qed
  have only: "versions_build registry build = Inl e \<longrightarrow> e = UnsupportedBuildError"
    by (simp add: versions_build_def split: option.splits)
  have ok: "build \<in> fst ` set registry
      \<longrightarrow> (\<exists>decoder. (build, decoder) \<in> set registry
            \<and> versions_build registry build = Inr decoder
            \<and> select_protocol registry build err = (Inr decoder, err))"
  proof
    assume "build \<in> fst ` set registry"
    then obtain decoder where
      "(build, decoder) \<in> set registry" "versions_build registry build = Inr decoder"
      using versions_build_registered by blast
    moreover from this have "select_protocol registry build err = (Inr decoder, err)"
      by (simp add: select_protocol_def)
    ultimately show "\<exists>decoder. (build, decoder) \<in> set registry
            \<and> versions_build registry build = Inr decoder
            \<and> select_protocol registry build err = (Inr decoder, err)"
      by blast
  qed
  have exits: "build \<notin> fst ` set registry
      \<longrightarrow> select_protocol registry build err =
            (Inl (SystemExit 1), err @ [''Unsupported base build: '' @ show_int build])"
    using versions_build_unregistered [of build registry]
    by (simp add: select_protocol_def)
  have header: "resolve_protocol registry
        (PDict [(KStr ''m_version'', PDict [(KStr ''m_baseBuild'', PInt build)])]) err
      = select_protocol registry build err"
    by (simp add: resolve_protocol_def getitem_def)
  from iff only ok exits read_int_show_int [of build] header show ?thesis by (intro conjI)
qed

theorem unsupported_build_exits_witness:
  "select_protocol [(80949, ''protocol80949''), (15405, ''protocol15405'')] 12345 []
     = (Inl (SystemExit 1), [''Unsupported base build: 12345''])
   \<and> select_protocol [(80949, ''protocol80949''), (15405, ''protocol15405'')] 15405 []
     = (Inr ''protocol15405'', [])"
proof -
  let ?registry = "[(80949, ''protocol80949''), (15405, ''protocol15405'')] :: (int \<times> string) list"
  have "(12345 :: int) \<notin> fst ` set ?registry" by simp
  then have "select_protocol ?registry 12345 []
     = (Inl (SystemExit 1), [] @ [''Unsupported base build: '' @ show_int 12345])"
    using unsupported_build_exits [of ?registry 12345 _ "[]"] by blast
  moreover have "show_int 12345 = ''12345''"
    by (simp add: show_int_def show_nat.simps decimal_digit_def)
  moreover have "(15405 :: int) \<in> fst ` set ?registry" by simp
  then have "\<exists>decoder. (15405, decoder) \<in> set ?registry
            \<and> select_protocol ?registry 15405 [] = (Inr decoder, [])"
    using unsupported_build_exits [of ?registry 15405 _ "[]"] by blast
  then have "select_protocol ?registry 15405 [] = (Inr ''protocol15405'', [])"
    by auto
  ultimately show ?thesis by simp
qed

end
